theory Spec2Isabelle
  imports Main "HOL-Library.Multiset" "HOL-Library.Product_Lexorder"
begin

section \<open>Strings\<close>

text \<open>
  A Python \<^verbatim>\<open>str\<close> is a sequence of Unicode code points, and \<^verbatim>\<open>len\<close>,
  \<^verbatim>\<open>strip\<close>, \<^verbatim>\<open>isdigit\<close> and the regular expressions of \<^verbatim>\<open>strptime\<close> all work
  on code points. A string is therefore a list of code points, each an integer as
  \<^verbatim>\<open>ord\<close> gives it; \<open>u\<close> embeds an ASCII literal.
\<close>

type_synonym ustr = "int list"

definition u :: "string \<Rightarrow> ustr" where
  "u s = map of_char s"

definition in_ranges :: "int \<Rightarrow> (int \<times> int) list \<Rightarrow> bool" where
  "in_ranges c rs = list_ex (\<lambda>r. fst r \<le> c \<and> c \<le> snd r) rs"

text \<open>
  \<^verbatim>\<open>str.isspace\<close> for one code point: the white space table of CPython
  (\<^verbatim>\<open>_PyUnicode_IsWhitespace\<close>).
\<close>

definition whitespace_ranges :: "(int \<times> int) list" where
  "whitespace_ranges =
     [(9, 13), (28, 32), (133, 133), (160, 160), (5760, 5760), (8192, 8202),
      (8232, 8233), (8239, 8239), (8287, 8287), (12288, 12288)]"

definition isspace_cp :: "int \<Rightarrow> bool" where
  "isspace_cp c = in_ranges c whitespace_ranges"

text \<open>\<^verbatim>\<open>str.strip()\<close> with no argument: drops leading and trailing white space.\<close>

definition strip :: "ustr \<Rightarrow> ustr" where
  "strip s = rev (dropWhile isspace_cp (rev (dropWhile isspace_cp s)))"

text \<open>
  The code points with Unicode property Numeric_Type=Decimal (category Nd), in runs of
  ten that start at the digit zero of a script; the mathematical digits 120782..120831
  are five such runs in a row. This is what \<^verbatim>\<open>\d\<close> matches in a \<^verbatim>\<open>str\<close> pattern
  and what \<^verbatim>\<open>int()\<close> converts (Unicode 14, as shipped with CPython 3.11).
\<close>

definition decimal_ranges :: "(int \<times> int) list" where
  "decimal_ranges =
     [(48, 57), (1632, 1641), (1776, 1785), (1984, 1993), (2406, 2415), (2534, 2543),
      (2662, 2671), (2790, 2799), (2918, 2927), (3046, 3055), (3174, 3183), (3302, 3311),
      (3430, 3439), (3558, 3567), (3664, 3673), (3792, 3801), (3872, 3881), (4160, 4169),
      (4240, 4249), (6112, 6121), (6160, 6169), (6470, 6479), (6608, 6617), (6784, 6793),
      (6800, 6809), (6992, 7001), (7088, 7097), (7232, 7241), (7248, 7257), (42528, 42537),
      (43216, 43225), (43264, 43273), (43472, 43481), (43504, 43513), (43600, 43609),
      (44016, 44025), (65296, 65305), (66720, 66729), (68912, 68921), (69734, 69743),
      (69872, 69881), (69942, 69951), (70096, 70105), (70384, 70393), (70736, 70745),
      (70864, 70873), (71248, 71257), (71360, 71369), (71472, 71481), (71904, 71913),
      (72016, 72025), (72784, 72793), (73040, 73049), (73120, 73129), (92768, 92777),
      (92864, 92873), (93008, 93017), (120782, 120831), (123200, 123209), (123632, 123641),
      (125264, 125273), (130032, 130041)]"

definition isdecimal_cp :: "int \<Rightarrow> bool" where
  "isdecimal_cp c = in_ranges c decimal_ranges"

text \<open>The digit value of a decimal code point: its offset in its run, modulo ten.\<close>

definition decimal_value :: "int \<Rightarrow> int" where
  "decimal_value c =
     (case find (\<lambda>r. fst r \<le> c \<and> c \<le> snd r) decimal_ranges of
        Some r \<Rightarrow> (c - fst r) mod 10
      | None \<Rightarrow> 0)"

text \<open>
  The code points with Numeric_Type=Digit that are not decimal: superscripts and
  subscripts, circled and parenthesised digits and the like. \<^verbatim>\<open>str.isdigit\<close> accepts
  these and the decimal ones.
\<close>

definition other_digit_ranges :: "(int \<times> int) list" where
  "other_digit_ranges =
     [(178, 179), (185, 185), (4969, 4977), (6618, 6618), (8304, 8304), (8308, 8313),
      (8320, 8329), (9312, 9320), (9332, 9340), (9352, 9360), (9450, 9450), (9461, 9469),
      (9471, 9471), (10102, 10110), (10112, 10120), (10122, 10130), (68160, 68163),
      (69216, 69224), (69714, 69722), (127232, 127242)]"

definition isdigit_cp :: "int \<Rightarrow> bool" where
  "isdigit_cp c = (isdecimal_cp c \<or> in_ranges c other_digit_ranges)"

text \<open>\<^verbatim>\<open>str.isdigit()\<close>: at least one character, and every character a digit.\<close>

definition isdigit :: "ustr \<Rightarrow> bool" where
  "isdigit s = (s \<noteq> [] \<and> list_all isdigit_cp s)"

definition is_ascii_digit :: "int \<Rightarrow> bool" where
  "is_ascii_digit c = (48 \<le> c \<and> c \<le> 57)"

section \<open>Errors\<close>

text \<open>
  Every exception of the program is a \<^verbatim>\<open>ValueError\<close>; they differ in the message.
  The messages of the source are kept as tags:
  \<^item> \<open>Name_required\<close>: the message of \<^verbatim>\<open>Name\<close> (the name is empty);
  \<^item> \<open>Phone_ten_digits\<close>: the message of \<^verbatim>\<open>Phone\<close> (the number must have 10 digits);
  \<^item> \<open>Date_format\<close>: the message of \<^verbatim>\<open>Birthday\<close> (the format must be DD.MM.YYYY);
  \<^item> \<open>Old_phone_not_found p\<close>: \<^verbatim>\<open>f"Old phone {old_phone} not found"\<close>;
  \<^item> \<open>Nothing_to_remove\<close>: \<^verbatim>\<open>"Nothing to remove"\<close>;
  \<^item> \<open>Date_out_of_range\<close>: the library's message for a year, month or day that
    \<^verbatim>\<open>date(...)\<close> refuses;
  \<^item> \<open>Time_data_mismatch\<close>: the library's message when \<^verbatim>\<open>strptime\<close> finds no match
    or unconverted data.
  \<^verbatim>\<open>OverflowError\<close> is what \<^verbatim>\<open>date + timedelta\<close> raises past the last date,
  \<^verbatim>\<open>KeyError\<close> what \<^verbatim>\<open>AddressBook.delete\<close> raises, and \<open>UnpicklingError\<close>
  stands for whatever \<^verbatim>\<open>pickle.load\<close> raises on a file it cannot decode.
\<close>

datatype message =
    Name_required
  | Phone_ten_digits
  | Date_format
  | Old_phone_not_found ustr
  | Nothing_to_remove
  | Date_out_of_range
  | Time_data_mismatch

datatype error = ValueError message | OverflowError | KeyError | UnpicklingError

section \<open>Calendar dates\<close>

text \<open>
  \<^verbatim>\<open>datetime.date\<close>: a year, a month and a day, with the arithmetic of the proleptic
  Gregorian calendar. The ordinal of a date counts days from 0001-01-01, which is day 1.
\<close>

record date =
  year :: int
  month :: int
  day :: int

definition MINYEAR :: int where
  "MINYEAR = 1"

definition MAXYEAR :: int where
  "MAXYEAR = 9999"

definition is_leap :: "int \<Rightarrow> bool" where
  "is_leap y = (y mod 4 = 0 \<and> (y mod 100 \<noteq> 0 \<or> y mod 400 = 0))"

definition DAYS_IN_MONTH :: "int list" where
  "DAYS_IN_MONTH = [-1, 31, 28, 31, 30, 31, 30, 31, 31, 30, 31, 30, 31]"

definition DAYS_BEFORE_MONTH :: "int list" where
  "DAYS_BEFORE_MONTH = [-1, 0, 31, 59, 90, 120, 151, 181, 212, 243, 273, 304, 334]"

text \<open>Both tables are read at a month between 1 and 12 only.\<close>

definition days_in_month :: "int \<Rightarrow> int \<Rightarrow> int" where
  "days_in_month y m = (if m = 2 \<and> is_leap y then 29 else DAYS_IN_MONTH ! nat m)"

definition days_before_year :: "int \<Rightarrow> int" where
  "days_before_year y = (let y' = y - 1 in y' * 365 + y' div 4 - y' div 100 + y' div 400)"

definition days_before_month :: "int \<Rightarrow> int \<Rightarrow> int" where
  "days_before_month y m =
     DAYS_BEFORE_MONTH ! nat m + (if 2 < m \<and> is_leap y then 1 else 0)"

definition ymd2ord :: "int \<Rightarrow> int \<Rightarrow> int \<Rightarrow> int" where
  "ymd2ord y m d = days_before_year y + days_before_month y m + d"

definition check_date_fields :: "int \<Rightarrow> int \<Rightarrow> int \<Rightarrow> bool" where
  "check_date_fields y m d =
     (MINYEAR \<le> y \<and> y \<le> MAXYEAR \<and> 1 \<le> m \<and> m \<le> 12 \<and> 1 \<le> d \<and> d \<le> days_in_month y m)"

text \<open>The dates that exist as values of \<^verbatim>\<open>datetime.date\<close>.\<close>

definition valid_date :: "date \<Rightarrow> bool" where
  "valid_date dt = check_date_fields (year dt) (month dt) (day dt)"

text \<open>\<^verbatim>\<open>date(year, month, day)\<close>: a \<^verbatim>\<open>ValueError\<close> when a field is out of range.\<close>

definition date_new :: "int \<Rightarrow> int \<Rightarrow> int \<Rightarrow> error + date" where
  "date_new y m d =
     (if check_date_fields y m d then Inr \<lparr>year = y, month = m, day = d\<rparr>
      else Inl (ValueError Date_out_of_range))"

text \<open>\<^verbatim>\<open>bday.replace(year=y)\<close> builds a new date from the changed fields.\<close>

definition replace_year :: "date \<Rightarrow> int \<Rightarrow> error + date" where
  "replace_year dt y = date_new y (month dt) (day dt)"

definition toordinal :: "date \<Rightarrow> int" where
  "toordinal dt = ymd2ord (year dt) (month dt) (day dt)"

text \<open>\<^verbatim>\<open>date.weekday()\<close>: Monday is 0 and Sunday is 6.\<close>

definition weekday :: "date \<Rightarrow> int" where
  "weekday dt = (toordinal dt + 6) mod 7"

text \<open>Dates compare as the tuples (year, month, day).\<close>

definition date_key :: "date \<Rightarrow> int \<times> int \<times> int" where
  "date_key dt = (year dt, month dt, day dt)"

definition date_lt :: "date \<Rightarrow> date \<Rightarrow> bool" where
  "date_lt a b = (date_key a < date_key b)"

definition MAXORDINAL :: int where
  "MAXORDINAL = 3652059"

text \<open>
  \<^verbatim>\<open>date + timedelta(days=k)\<close> for \<open>k \<ge> 0\<close>: the date \<open>k\<close> days later, or
  \<^verbatim>\<open>OverflowError\<close> when its ordinal would pass that of 9999-12-31. The library goes
  through the ordinal; here the date is stepped day by day, and
  \<open>toordinal_add_days\<close> below shows that the ordinal grows by \<open>k\<close>.
\<close>

definition next_day :: "date \<Rightarrow> date" where
  "next_day dt =
     (if day dt < days_in_month (year dt) (month dt) then dt\<lparr>day := day dt + 1\<rparr>
      else if month dt < 12 then dt\<lparr>month := month dt + 1, day := 1\<rparr>
      else \<lparr>year = year dt + 1, month = 1, day = 1\<rparr>)"

fun add_days :: "date \<Rightarrow> nat \<Rightarrow> date" where
  "add_days dt 0 = dt"
| "add_days dt (Suc k) = add_days (next_day dt) k"

definition date_add :: "date \<Rightarrow> nat \<Rightarrow> error + date" where
  "date_add dt k =
     (let n = toordinal dt + int k in
      if 0 < n \<and> n \<le> MAXORDINAL then Inr (add_days dt k) else Inl OverflowError)"

text \<open>\<^verbatim>\<open>(a - b).days\<close> for two dates.\<close>

definition days_between :: "date \<Rightarrow> date \<Rightarrow> int" where
  "days_between a b = toordinal a - toordinal b"

section \<open>Formatting and parsing dates\<close>

text \<open>
  \<^verbatim>\<open>strftime("%d.%m.%Y")\<close> hands the format to the C library. Day and month are
  zero-filled to two digits. The year is written by glibc as the decimal number with no
  filling, so a year below 1000 has fewer than four digits: the year 999 gives
  \<^verbatim>\<open>01.01.999\<close>. The fields of a date are within the ranges these digits cover.
\<close>

definition fmt_02d :: "int \<Rightarrow> ustr" where
  "fmt_02d n = [48 + n div 10, 48 + n mod 10]"

definition fmt_year :: "int \<Rightarrow> ustr" where
  "fmt_year n =
     (if n < 10 then [48 + n]
      else if n < 100 then [48 + n div 10, 48 + n mod 10]
      else if n < 1000 then [48 + n div 100, 48 + n div 10 mod 10, 48 + n mod 10]
      else [48 + n div 1000, 48 + n div 100 mod 10, 48 + n div 10 mod 10, 48 + n mod 10])"

definition strftime :: "date \<Rightarrow> ustr" where
  "strftime dt = fmt_02d (day dt) @ [46] @ fmt_02d (month dt) @ [46] @ fmt_year (year dt)"

text \<open>
  \<^verbatim>\<open>strptime(s, "%d.%m.%Y")\<close> compiles the format to the regular expression
  \<^verbatim>\<open>(?P<d>3[0-1]|[1-2]\d|0[1-9]|[1-9]| [1-9])\.(?P<m>1[0-2]|0[1-9]|[1-9])\.(?P<Y>\d\d\d\d)\<close>
  and matches it at the start of \<open>s\<close>. A matcher returns the ways it can match a
  prefix, in the order in which a backtracking engine tries them: the text of the group
  and the rest of the input. Code point 46 is the full stop, 32 the space, 48..57 the
  ASCII digits.
\<close>

definition between :: "int \<Rightarrow> int \<Rightarrow> int \<Rightarrow> bool" where
  "between lo hi c = (lo \<le> c \<and> c \<le> hi)"

definition alt1 :: "(int \<Rightarrow> bool) \<Rightarrow> ustr \<Rightarrow> (ustr \<times> ustr) list" where
  "alt1 p s = (case s of a # r \<Rightarrow> if p a then [([a], r)] else [] | [] \<Rightarrow> [])"

definition alt2 :: "(int \<Rightarrow> bool) \<Rightarrow> (int \<Rightarrow> bool) \<Rightarrow> ustr \<Rightarrow> (ustr \<times> ustr) list" where
  "alt2 p q s =
     (case s of a # b # r \<Rightarrow> if p a \<and> q b then [([a, b], r)] else [] | _ \<Rightarrow> [])"

definition lit :: "int \<Rightarrow> ustr \<Rightarrow> ustr list" where
  "lit c s = (case s of a # r \<Rightarrow> if a = c then [r] else [] | [] \<Rightarrow> [])"

definition re_d :: "ustr \<Rightarrow> (ustr \<times> ustr) list" where
  "re_d s =
     alt2 (\<lambda>c. c = 51) (between 48 49) s @
     alt2 (between 49 50) isdecimal_cp s @
     alt2 (\<lambda>c. c = 48) (between 49 57) s @
     alt1 (between 49 57) s @
     alt2 (\<lambda>c. c = 32) (between 49 57) s"

definition re_m :: "ustr \<Rightarrow> (ustr \<times> ustr) list" where
  "re_m s =
     alt2 (\<lambda>c. c = 49) (between 48 50) s @
     alt2 (\<lambda>c. c = 48) (between 49 57) s @
     alt1 (between 49 57) s"

definition re_Y :: "ustr \<Rightarrow> (ustr \<times> ustr) list" where
  "re_Y s =
     (case s of
        a # b # c # d # r \<Rightarrow>
          if isdecimal_cp a \<and> isdecimal_cp b \<and> isdecimal_cp c \<and> isdecimal_cp d
          then [([a, b, c, d], r)] else []
      | _ \<Rightarrow> [])"

text \<open>All matches of the whole expression, the one the engine returns first.\<close>

definition format_regex_match :: "ustr \<Rightarrow> (ustr \<times> ustr \<times> ustr \<times> ustr) list" where
  "format_regex_match s =
     concat (map (\<lambda>(dg, r1).
       concat (map (\<lambda>r2.
         concat (map (\<lambda>(mg, r3).
           concat (map (\<lambda>r4.
             map (\<lambda>(yg, r5). (dg, mg, yg, r5)) (re_Y r4))
           (lit 46 r3)))
         (re_m r2)))
       (lit 46 r1)))
     (re_d s))"

text \<open>
  \<^verbatim>\<open>int(s)\<close> on a string of decimal digits, which may have white space around it.
\<close>

definition py_int :: "ustr \<Rightarrow> int" where
  "py_int s = foldl (\<lambda>a c. 10 * a + decimal_value c) 0 (strip s)"

text \<open>
  \<^verbatim>\<open>datetime.strptime(s, "%d.%m.%Y").date()\<close>: no match, or a match that leaves input
  over, is a \<^verbatim>\<open>ValueError\<close>; so is a date that does not exist.
\<close>

definition strptime :: "ustr \<Rightarrow> error + date" where
  "strptime s =
     (case format_regex_match s of
        [] \<Rightarrow> Inl (ValueError Time_data_mismatch)
      | (dg, mg, yg, rest) # _ \<Rightarrow>
          if rest \<noteq> [] then Inl (ValueError Time_data_mismatch)
          else date_new (py_int yg) (py_int mg) (py_int dg))"

text \<open>
  The strings that the three groups of the expression match in full: a day from 1 to
  31 in one or two characters (with a leading zero or, as in the output of C, a leading
  space), a month from 1 to 12 in one or two characters, and four decimal digits.
\<close>

fun day_token :: "ustr \<Rightarrow> bool" where
  "day_token [a] = between 49 57 a"
| "day_token [a, b] =
     (a = 51 \<and> between 48 49 b \<or> between 49 50 a \<and> isdecimal_cp b \<or>
      a = 48 \<and> between 49 57 b \<or> a = 32 \<and> between 49 57 b)"
| "day_token _ = False"

fun month_token :: "ustr \<Rightarrow> bool" where
  "month_token [a] = between 49 57 a"
| "month_token [a, b] = (a = 49 \<and> between 48 50 b \<or> a = 48 \<and> between 49 57 b)"
| "month_token _ = False"

fun year_token :: "ustr \<Rightarrow> bool" where
  "year_token [a, b, c, d] = (isdecimal_cp a \<and> isdecimal_cp b \<and> isdecimal_cp c \<and> isdecimal_cp d)"
| "year_token _ = False"

section \<open>Validated fields\<close>

text \<open>
  A field object holds one attribute, \<^verbatim>\<open>value\<close>; the constructors below return that
  value, or the error they raise.
\<close>

definition Name :: "ustr \<Rightarrow> error + ustr" where
  "Name v = (let v' = strip v in
     if v' = [] then Inl (ValueError Name_required) else Inr v')"

definition Phone :: "ustr \<Rightarrow> error + ustr" where
  "Phone v = (let v' = strip v in
     if \<not> isdigit v' \<or> length v' \<noteq> 10 then Inl (ValueError Phone_ten_digits)
     else Inr v')"

text \<open>
  \<^verbatim>\<open>Birthday\<close> turns every \<^verbatim>\<open>ValueError\<close> of the parser into its own; the value it
  keeps is the parsed date formatted again.
\<close>

definition Birthday :: "ustr \<Rightarrow> error + ustr" where
  "Birthday v = (let v' = strip v in
     case strptime v' of
       Inl (ValueError _) \<Rightarrow> Inl (ValueError Date_format)
     | Inl e \<Rightarrow> Inl e
     | Inr parsed_value \<Rightarrow> Inr (strftime parsed_value))"

text \<open>The property \<^verbatim>\<open>date_value\<close> parses the stored string each time it is read.\<close>

definition date_value :: "ustr \<Rightarrow> error + date" where
  "date_value v = strptime v"

section \<open>Record\<close>

text \<open>
  A record holds the value of its name, the values of its phones in the order they were
  added, and the value of its birthday if one is set. No phone object is shared between
  two positions or two records, so the list of values is the whole state.
\<close>

record Record =
  name :: ustr
  phones :: "ustr list"
  birthday :: "ustr option"

definition Record_init :: "ustr \<Rightarrow> error + Record" where
  "Record_init n =
     (case Name n of
        Inl e \<Rightarrow> Inl e
      | Inr v \<Rightarrow> Inr \<lparr>name = v, phones = [], birthday = None\<rparr>)"

text \<open>
  A method that changes the record returns what it raised, if anything, together with
  the record as it is afterwards.
\<close>

definition add_phone :: "Record \<Rightarrow> ustr \<Rightarrow> (error + unit) \<times> Record" where
  "add_phone r phone =
     (case Phone phone of
        Inl e \<Rightarrow> (Inl e, r)
      | Inr v \<Rightarrow> (Inr (), r\<lparr>phones := phones r @ [v]\<rparr>))"

text \<open>
  \<^verbatim>\<open>find_phone\<close> returns the first phone object whose value equals the argument, or
  \<^verbatim>\<open>None\<close>. The object is identified by its position in the list.
\<close>

fun find_phone_from :: "ustr list \<Rightarrow> ustr \<Rightarrow> nat \<Rightarrow> nat option" where
  "find_phone_from [] phone i = None"
| "find_phone_from (p # ps) phone i =
     (if p = phone then Some i else find_phone_from ps phone (Suc i))"

definition find_phone :: "Record \<Rightarrow> ustr \<Rightarrow> nat option" where
  "find_phone r phone = find_phone_from (phones r) phone 0"

definition edit_phone :: "Record \<Rightarrow> ustr \<Rightarrow> ustr \<Rightarrow> (error + unit) \<times> Record" where
  "edit_phone r old_phone new_phone =
     (case find_phone r old_phone of
        None \<Rightarrow> (Inl (ValueError (Old_phone_not_found old_phone)), r)
      | Some i \<Rightarrow>
          (case Phone new_phone of
             Inl e \<Rightarrow> (Inl e, r)
           | Inr v \<Rightarrow> (Inr (), r\<lparr>phones := (phones r)[i := v]\<rparr>)))"

definition remove_phone :: "Record \<Rightarrow> ustr \<Rightarrow> (error + unit) \<times> Record" where
  "remove_phone r phone =
     (case find_phone r phone of
        None \<Rightarrow> (Inl (ValueError Nothing_to_remove), r)
      | Some i \<Rightarrow> (Inr (), r\<lparr>phones := take i (phones r) @ drop (Suc i) (phones r)\<rparr>))"


fun join :: "ustr \<Rightarrow> ustr list \<Rightarrow> ustr" where
  "join sep [] = []"
| "join sep [x] = x"
| "join sep (x # y # ys) = x @ sep @ join sep (y # ys)"

definition Record_str :: "Record \<Rightarrow> ustr" where
  "Record_str r =
     (let phones_str = (if phones r \<noteq> [] then join (u '' ; '') (phones r) else u ''-'');
          bday_str = (case birthday r of Some b \<Rightarrow> b | None \<Rightarrow> u ''-'')
      in name r @ u '', phones: '' @ phones_str @ u '', birthday: '' @ bday_str)"

section \<open>AddressBook\<close>

text \<open>
  The dictionary of the book keeps its keys in insertion order: a list of pairs with
  distinct keys. Assigning to a key that is present replaces the value where it stands.
\<close>

type_synonym AddressBook = "(ustr \<times> Record) list"

fun dict_set :: "('k \<times> 'v) list \<Rightarrow> 'k \<Rightarrow> 'v \<Rightarrow> ('k \<times> 'v) list" where
  "dict_set [] k v = [(k, v)]"
| "dict_set ((k', v') # kvs) k v =
     (if k' = k then (k, v) # kvs else (k', v') # dict_set kvs k v)"

definition add_record :: "AddressBook \<Rightarrow> Record \<Rightarrow> AddressBook" where
  "add_record book record = dict_set book (name record) record"

definition find_record :: "AddressBook \<Rightarrow> ustr \<Rightarrow> Record option" where
  "find_record book n = map_of book n"

definition delete :: "AddressBook \<Rightarrow> ustr \<Rightarrow> (error + Record) \<times> AddressBook" where
  "delete book n =
     (case map_of book n of
        None \<Rightarrow> (Inl KeyError, book)
      | Some r \<Rightarrow> (Inr r, filter (\<lambda>kv. fst kv \<noteq> n) book))"

definition AddressBook_str :: "AddressBook \<Rightarrow> ustr" where
  "AddressBook_str book =
     (if book = [] then u ''[]'' else join [10] (map (\<lambda>kv. Record_str (snd kv)) book))"

subsection \<open>Upcoming birthdays\<close>

definition safe_birthday_for_year :: "date \<Rightarrow> int \<Rightarrow> error + date" where
  "safe_birthday_for_year bday y =
     (case replace_year bday y of
        Inr d \<Rightarrow> Inr d
      | Inl (ValueError _) \<Rightarrow> date_new y 2 28
      | Inl e \<Rightarrow> Inl e)"

text \<open>
  The body of the loop of \<^verbatim>\<open>get_upcoming_birthdays\<close>, in the steps of the source:
  the occurrence of the birthday (\<^verbatim>\<open>birthday_this_year\<close>, moved to the next year when
  it is before today), the date of congratulation (\<^verbatim>\<open>congrat_date\<close>), and the entry
  appended when the difference in days is within the window. \<open>today\<close> is what
  \<^verbatim>\<open>date.today()\<close> returned. An entry is the pair of the values stored under
  \<^verbatim>\<open>"name"\<close> and \<^verbatim>\<open>"congratulation_date"\<close>.
\<close>

definition birthday_this_year :: "date \<Rightarrow> date \<Rightarrow> error + date" where
  "birthday_this_year bday_date today =
     (case safe_birthday_for_year bday_date (year today) of
        Inl e \<Rightarrow> Inl e
      | Inr d \<Rightarrow>
          if date_lt d today then safe_birthday_for_year bday_date (year today + 1)
          else Inr d)"

definition congrat_date :: "date \<Rightarrow> error + date" where
  "congrat_date d =
     (if weekday d = 5 then date_add d 2
      else if weekday d = 6 then date_add d 1
      else Inr d)"

type_synonym entry = "ustr \<times> ustr"

definition upcoming_entry :: "date \<Rightarrow> int \<Rightarrow> Record \<Rightarrow> error + entry option" where
  "upcoming_entry today days record =
     (case birthday record of
        None \<Rightarrow> Inr None
      | Some b \<Rightarrow>
          (case date_value b of
             Inl e \<Rightarrow> Inl e
           | Inr bday_date \<Rightarrow>
               (case birthday_this_year bday_date today of
                  Inl e \<Rightarrow> Inl e
                | Inr occurrence \<Rightarrow>
                    (case congrat_date occurrence of
                       Inl e \<Rightarrow> Inl e
                     | Inr cd \<Rightarrow>
                         (let delta = days_between cd today in
                          if 0 \<le> delta \<and> delta \<le> days
                          then Inr (Some (name record, strftime cd))
                          else Inr None)))))"

fun upcoming_loop :: "date \<Rightarrow> int \<Rightarrow> Record list \<Rightarrow> entry list \<Rightarrow> error + entry list" where
  "upcoming_loop today days [] upcoming = Inr upcoming"
| "upcoming_loop today days (record # records) upcoming =
     (case upcoming_entry today days record of
        Inl e \<Rightarrow> Inl e
      | Inr None \<Rightarrow> upcoming_loop today days records upcoming
      | Inr (Some x) \<Rightarrow> upcoming_loop today days records (upcoming @ [x]))"

text \<open>
  \<^verbatim>\<open>list.sort(key=...)\<close> computes the key of every element first, so a key that
  raises leaves the call with that error; it then sorts stably by the keys. The key of
  an entry is its congratulation date parsed back into a date.
\<close>

fun sort_keys :: "entry list \<Rightarrow> error + (int \<times> int \<times> int) list" where
  "sort_keys [] = Inr []"
| "sort_keys (x # xs) =
     (case strptime (snd x) of
        Inl e \<Rightarrow> Inl e
      | Inr d \<Rightarrow>
          (case sort_keys xs of
             Inl e \<Rightarrow> Inl e
           | Inr ks \<Rightarrow> Inr (date_key d # ks)))"

definition sort_by_date :: "entry list \<Rightarrow> error + entry list" where
  "sort_by_date upcoming =
     (case sort_keys upcoming of
        Inl e \<Rightarrow> Inl e
      | Inr ks \<Rightarrow> Inr (map snd (sort_key fst (zip ks upcoming))))"

definition get_upcoming_birthdays :: "AddressBook \<Rightarrow> date \<Rightarrow> int \<Rightarrow> error + entry list" where
  "get_upcoming_birthdays book today days =
     (case upcoming_loop today days (map snd book) [] of
        Inl e \<Rightarrow> Inl e
      | Inr upcoming \<Rightarrow> sort_by_date upcoming)"

section \<open>Saving and loading\<close>

text \<open>
  Modelled from the spec: the codec behind \<^verbatim>\<open>pickle.dump\<close> and \<^verbatim>\<open>pickle.load\<close>,
  which is a library and not in the source. The specification has \<^verbatim>\<open>save\<close> serialize
  the whole directory, all records with their name string, each phone string and the
  birthday string or its absence, and proposes the schema of a list of records each
  with name, phone list and optional birthday string. The content of a file is a
  sequence of integers. A string is written as its length followed by its code points,
  a list as its length followed by its elements, an absent birthday as 0 and a present
  one as 1 followed by the string, a record as name, phones and birthday, and the book
  as the list of its keys each followed by its record. \<^verbatim>\<open>pickle_load\<close> reads this back
  and is an \<open>UnpicklingError\<close> on any other content.
\<close>

definition enc_str :: "ustr \<Rightarrow> int list" where
  "enc_str s = int (length s) # s"

definition enc_strs :: "ustr list \<Rightarrow> int list" where
  "enc_strs ss = int (length ss) # concat (map enc_str ss)"

definition enc_opt :: "ustr option \<Rightarrow> int list" where
  "enc_opt b = (case b of None \<Rightarrow> [0] | Some v \<Rightarrow> 1 # enc_str v)"

definition enc_record :: "Record \<Rightarrow> int list" where
  "enc_record r = enc_str (name r) @ enc_strs (phones r) @ enc_opt (birthday r)"

definition enc_item :: "ustr \<times> Record \<Rightarrow> int list" where
  "enc_item kv = enc_str (fst kv) @ enc_record (snd kv)"

definition pickle_dump :: "AddressBook \<Rightarrow> int list" where
  "pickle_dump book = int (length book) # concat (map enc_item book)"

definition dec_str :: "int list \<Rightarrow> (ustr \<times> int list) option" where
  "dec_str xs =
     (case xs of
        [] \<Rightarrow> None
      | n # r \<Rightarrow>
          if 0 \<le> n \<and> nat n \<le> length r then Some (take (nat n) r, drop (nat n) r) else None)"

primrec dec_many :: "nat \<Rightarrow> (int list \<Rightarrow> ('a \<times> int list) option) \<Rightarrow> int list \<Rightarrow> ('a list \<times> int list) option" where
  "dec_many 0 d xs = Some ([], xs)"
| "dec_many (Suc n) d xs =
     (case d xs of
        None \<Rightarrow> None
      | Some (a, r) \<Rightarrow>
          (case dec_many n d r of
             None \<Rightarrow> None
           | Some (as, r') \<Rightarrow> Some (a # as, r')))"

definition dec_list :: "(int list \<Rightarrow> ('a \<times> int list) option) \<Rightarrow> int list \<Rightarrow> ('a list \<times> int list) option" where
  "dec_list d xs =
     (case xs of
        [] \<Rightarrow> None
      | n # r \<Rightarrow> if 0 \<le> n then dec_many (nat n) d r else None)"

definition dec_opt :: "int list \<Rightarrow> (ustr option \<times> int list) option" where
  "dec_opt xs =
     (case xs of
        [] \<Rightarrow> None
      | t # r \<Rightarrow>
          if t = 0 then Some (None, r)
          else if t = 1 then (case dec_str r of None \<Rightarrow> None | Some (v, r') \<Rightarrow> Some (Some v, r'))
          else None)"

definition dec_record :: "int list \<Rightarrow> (Record \<times> int list) option" where
  "dec_record xs =
     (case dec_str xs of
        None \<Rightarrow> None
      | Some (n, r1) \<Rightarrow>
          (case dec_list dec_str r1 of
             None \<Rightarrow> None
           | Some (ps, r2) \<Rightarrow>
               (case dec_opt r2 of
                  None \<Rightarrow> None
                | Some (b, r3) \<Rightarrow> Some (\<lparr>name = n, phones = ps, birthday = b\<rparr>, r3))))"

definition dec_item :: "int list \<Rightarrow> ((ustr \<times> Record) \<times> int list) option" where
  "dec_item xs =
     (case dec_str xs of
        None \<Rightarrow> None
      | Some (k, r1) \<Rightarrow>
          (case dec_record r1 of
             None \<Rightarrow> None
           | Some (r, r2) \<Rightarrow> Some ((k, r), r2)))"

definition pickle_load :: "int list \<Rightarrow> error + AddressBook" where
  "pickle_load content =
     (case dec_list dec_item content of
        Some (book, []) \<Rightarrow> Inr book
      | _ \<Rightarrow> Inl UnpicklingError)"

text \<open>
  The files are a map from path to content. Opening a path that has no file for reading
  is the \<^verbatim>\<open>FileNotFoundError\<close> that \<^verbatim>\<open>load_data\<close> catches, answering with a new empty
  \<^verbatim>\<open>AddressBook\<close>; opening for writing creates or replaces the file.
\<close>

type_synonym files = "ustr \<Rightarrow> int list option"

definition save_data :: "AddressBook \<Rightarrow> ustr \<Rightarrow> files \<Rightarrow> files" where
  "save_data book filename fs = fs(filename \<mapsto> pickle_dump book)"

definition load_data :: "ustr \<Rightarrow> files \<Rightarrow> error + AddressBook" where
  "load_data filename fs =
     (case fs filename of
        None \<Rightarrow> Inr []
      | Some content \<Rightarrow> pickle_load content)"

section \<open>Notions of the specification\<close>

text \<open>
  The occurrence of a birthday in a year, as the specification words it: the same month
  and day in that year, and 28 February when the birthday is 29 February and the year
  is not a leap year.
\<close>

definition occurrence_in_year :: "date \<Rightarrow> int \<Rightarrow> date" where
  "occurrence_in_year bday y =
     (if month bday = 2 \<and> day bday = 29 \<and> \<not> is_leap y
      then \<lparr>year = y, month = 2, day = 28\<rparr>
      else \<lparr>year = y, month = month bday, day = day bday\<rparr>)"

text \<open>The occurrence that counts: this year's, or next year's when this year's is past.\<close>

definition occurrence :: "date \<Rightarrow> date \<Rightarrow> date" where
  "occurrence bday today =
     (if date_lt (occurrence_in_year bday (year today)) today
      then occurrence_in_year bday (year today + 1)
      else occurrence_in_year bday (year today))"

text \<open>The days to move forward from a date: two from a Saturday, one from a Sunday.\<close>

definition weekend_shift :: "date \<Rightarrow> nat" where
  "weekend_shift d = (if weekday d = 5 then 2 else if weekday d = 6 then 1 else 0)"








text \<open>The format DD.MM.YYYY: ten characters, ASCII digits around two full stops.\<close>

fun is_DD_MM_YYYY :: "ustr \<Rightarrow> bool" where
  "is_DD_MM_YYYY [d1, d2, p1, m1, m2, p2, y1, y2, y3, y4] =
     (is_ascii_digit d1 \<and> is_ascii_digit d2 \<and> p1 = 46 \<and> is_ascii_digit m1 \<and> is_ascii_digit m2 \<and>
      p2 = 46 \<and> is_ascii_digit y1 \<and> is_ascii_digit y2 \<and> is_ascii_digit y3 \<and> is_ascii_digit y4)"
| "is_DD_MM_YYYY _ = False"

text \<open>The sort key of an entry as a total function: the date its string parses to.\<close>

definition congratulation_key :: "entry \<Rightarrow> int \<times> int \<times> int" where
  "congratulation_key x = (case strptime (snd x) of Inr d \<Rightarrow> date_key d | Inl e \<Rightarrow> (0, 0, 0))"

section \<open>Lemmas\<close>

subsection \<open>Calendar arithmetic\<close>

lemma month_cases:
  "1 \<le> m \<Longrightarrow> m \<le> 12 \<Longrightarrow>
   m = 1 \<or> m = 2 \<or> m = 3 \<or> m = 4 \<or> m = 5 \<or> m = 6 \<or> m = 7 \<or> m = 8 \<or> m = 9 \<or> m = 10 \<or> m = 11 \<or> m = (12::int)"
  by arith

lemma days_in_month_bounds:
  assumes "1 \<le> m" "m \<le> 12"
  shows "28 \<le> days_in_month y m \<and> days_in_month y m \<le> 31"
  using month_cases [OF assms]
  by (auto simp: days_in_month_def DAYS_IN_MONTH_def)

lemma days_before_month_step:
  assumes "1 \<le> m" "m < 12"
  shows "days_before_month y (m + 1) = days_before_month y m + days_in_month y m"
proof -
  have "m \<le> 12" using assms by simp
  from month_cases [OF assms(1) this] assms(2) show ?thesis
    by (auto simp: days_before_month_def days_in_month_def DAYS_IN_MONTH_def DAYS_BEFORE_MONTH_def)
qed

lemma days_before_december:
  "days_before_month y 12 + 31 = (if is_leap y then 366 else 365)"
  by (simp add: days_before_month_def DAYS_BEFORE_MONTH_def)

lemma days_in_year_bound:
  assumes "1 \<le> m" "m \<le> 12" "d \<le> days_in_month y m"
  shows "days_before_month y m + d \<le> (if is_leap y then 366 else 365)"
  using month_cases [OF assms(1,2)] assms(3)
  by (auto simp: days_before_month_def days_in_month_def DAYS_IN_MONTH_def DAYS_BEFORE_MONTH_def
      split: if_splits)

lemma days_before_month_nonneg:
  assumes "1 \<le> m" "m \<le> 12"
  shows "0 \<le> days_before_month y m"
  using month_cases [OF assms]
  by (auto simp: days_before_month_def DAYS_BEFORE_MONTH_def)

lemma div_pred:
  assumes "0 < (d::int)"
  shows "y div d = (y - 1) div d + (if y mod d = 0 then 1 else 0)"
proof (cases "y mod d = 0")
  case True
  have "y - 1 = d * (y div d - 1) + (d - 1)"
    using True div_mult_mod_eq [of y d] by (simp add: algebra_simps)
  then have "(y - 1) div d = y div d - 1"
    using assms int_div_pos_eq [of "y - 1" d "y div d - 1" "d - 1"] by simp
  with True show ?thesis by simp
next
  case False
  have r: "0 \<le> y mod d" "y mod d < d" using assms by simp_all
  have "y - 1 = d * (y div d) + (y mod d - 1)"
    by (simp add: algebra_simps)
  then have "(y - 1) div d = y div d"
    using assms r False int_div_pos_eq [of "y - 1" d "y div d" "y mod d - 1"] by simp
  with False show ?thesis by simp
qed

lemma mod_0_trans:
  assumes "(y::int) mod a = 0" "b dvd a"
  shows "y mod b = 0"
proof -
  from assms(1) have "a dvd y" by (simp add: mod_eq_0_iff_dvd)
  with assms(2) have "b dvd y" by (rule dvd_trans)
  then show ?thesis by (simp add: mod_eq_0_iff_dvd)
qed

lemma days_before_year_step:
  "days_before_year (y + 1) = days_before_year y + (if is_leap y then 366 else 365)"
proof -
  have e4: "y div 4 = (y - 1) div 4 + (if y mod 4 = 0 then 1 else 0)"
    by (rule div_pred) simp
  have e100: "y div 100 = (y - 1) div 100 + (if y mod 100 = 0 then 1 else 0)"
    by (rule div_pred) simp
  have e400: "y div 400 = (y - 1) div 400 + (if y mod 400 = 0 then 1 else 0)"
    by (rule div_pred) simp
  have a: "y mod 400 = 0 \<Longrightarrow> y mod 100 = 0" "y mod 100 = 0 \<Longrightarrow> y mod 4 = 0"
    by (erule mod_0_trans, simp)+
  have "days_before_year (y + 1) = y * 365 + y div 4 - y div 100 + y div 400"
    by (simp add: days_before_year_def)
  also have "\<dots> = days_before_year y + 365
      + (if y mod 4 = 0 then 1 else 0) - (if y mod 100 = 0 then 1 else 0)
      + (if y mod 400 = 0 then 1 else 0)"
    unfolding e4 e100 e400 by (simp add: days_before_year_def Let_def algebra_simps)
  also have "\<dots> = days_before_year y + (if is_leap y then 366 else 365)"
    using a
    by (cases "y mod 4 = 0"; cases "y mod 100 = 0"; cases "y mod 400 = 0")
       (simp_all add: is_leap_def)
  finally show ?thesis .
qed

lemma days_before_year_mono_step: "days_before_year y \<le> days_before_year (y + 1)"
  by (simp add: days_before_year_step)

lemma days_before_year_mono:
  assumes "y \<le> z"
  shows "days_before_year y \<le> days_before_year z"
  using assms
proof (induction z rule: int_ge_induct)
  case base
  show ?case by simp
next
  case (step i)
  then show ?case using days_before_year_mono_step [of i] by simp
qed

lemma toordinal_bounds:
  assumes "valid_date dt"
  shows "1 \<le> toordinal dt \<and> toordinal dt \<le> MAXORDINAL"
proof -
  from assms have f: "1 \<le> year dt" "year dt \<le> 9999" "1 \<le> month dt" "month dt \<le> 12"
    "1 \<le> day dt" "day dt \<le> days_in_month (year dt) (month dt)"
    by (simp_all add: valid_date_def check_date_fields_def MINYEAR_def MAXYEAR_def)
  have "days_before_year 1 \<le> days_before_year (year dt)"
    using f(1) by (rule days_before_year_mono)
  then have lo: "0 \<le> days_before_year (year dt)"
    by (simp add: days_before_year_def)
  have inyear: "days_before_month (year dt) (month dt) + day dt
      \<le> (if is_leap (year dt) then 366 else 365)"
    using f(3,4,6) by (rule days_in_year_bound)
  then have "toordinal dt \<le> days_before_year (year dt + 1)"
    by (simp add: toordinal_def ymd2ord_def days_before_year_step)
  moreover have "days_before_year (year dt + 1) \<le> days_before_year 10000"
    using f(2) by (intro days_before_year_mono) simp
  ultimately have "toordinal dt \<le> MAXORDINAL"
    by (simp add: days_before_year_def MAXORDINAL_def)
  moreover have "1 \<le> toordinal dt"
    using lo days_before_month_nonneg [OF f(3,4), of "year dt"] f(5)
    by (simp add: toordinal_def ymd2ord_def)
  ultimately show ?thesis by simp
qed

lemma toordinal_next_day:
  assumes "valid_date dt"
  shows "toordinal (next_day dt) = toordinal dt + 1"
proof -
  from assms have f: "1 \<le> month dt" "month dt \<le> 12"
    "day dt \<le> days_in_month (year dt) (month dt)"
    by (simp_all add: valid_date_def check_date_fields_def)
  show ?thesis
  proof (cases "day dt < days_in_month (year dt) (month dt)")
    case True
    then show ?thesis by (simp add: next_day_def toordinal_def ymd2ord_def)
  next
    case False
    with f have d: "day dt = days_in_month (year dt) (month dt)" by simp
    show ?thesis
    proof (cases "month dt < 12")
      case True
      then show ?thesis
        using False d days_before_month_step [OF f(1) True, of "year dt"]
        by (simp add: next_day_def toordinal_def ymd2ord_def)
    next
      case False
      with f have m: "month dt = 12" by simp
      with d have d31: "day dt = 31" by (simp add: days_in_month_def DAYS_IN_MONTH_def)
      have "days_before_month (year dt + 1) 1 = 0"
        by (simp add: days_before_month_def DAYS_BEFORE_MONTH_def)
      then show ?thesis
        using m d31 days_before_december [of "year dt"] days_before_year_step [of "year dt"]
        by (simp add: next_day_def toordinal_def ymd2ord_def days_in_month_def DAYS_IN_MONTH_def)
    qed
  qed
qed

lemma valid_next_day:
  assumes "valid_date dt" "toordinal dt < MAXORDINAL"
  shows "valid_date (next_day dt)"
proof -
  from assms(1) have f: "1 \<le> year dt" "year dt \<le> 9999" "1 \<le> month dt" "month dt \<le> 12"
    "1 \<le> day dt" "day dt \<le> days_in_month (year dt) (month dt)"
    by (simp_all add: valid_date_def check_date_fields_def MINYEAR_def MAXYEAR_def)
  show ?thesis
  proof (cases "day dt < days_in_month (year dt) (month dt)")
    case True
    with f show ?thesis
      by (simp add: next_day_def valid_date_def check_date_fields_def MINYEAR_def MAXYEAR_def)
  next
    case False
    with f have d: "day dt = days_in_month (year dt) (month dt)" by simp
    show ?thesis
    proof (cases "month dt < 12")
      case True
      with f days_in_month_bounds [of "month dt + 1" "year dt"] d show ?thesis
        by (simp add: next_day_def valid_date_def check_date_fields_def MINYEAR_def MAXYEAR_def)
    next
      case False
      with f have m: "month dt = 12" by simp
      with d have d31: "day dt = 31" by (simp add: days_in_month_def DAYS_IN_MONTH_def)
      have "year dt \<noteq> 9999"
      proof
        assume "year dt = 9999"
        with m d31 have "toordinal dt = MAXORDINAL"
          by (simp add: toordinal_def ymd2ord_def days_before_year_def days_before_month_def
              DAYS_BEFORE_MONTH_def is_leap_def MAXORDINAL_def)
        with assms(2) show False by simp
      qed
      with f m d31 show ?thesis
        by (simp add: next_day_def valid_date_def check_date_fields_def MINYEAR_def MAXYEAR_def
            days_in_month_def DAYS_IN_MONTH_def)
    qed
  qed
qed

lemma add_days_correct:
  assumes "valid_date dt" "toordinal dt + int k \<le> MAXORDINAL"
  shows "valid_date (add_days dt k) \<and> toordinal (add_days dt k) = toordinal dt + int k"
  using assms
proof (induction k arbitrary: dt)
  case 0
  then show ?case by simp
next
  case (Suc k)
  from Suc.prems have lt: "toordinal dt < MAXORDINAL" by simp
  have v: "valid_date (next_day dt)" using Suc.prems(1) lt by (rule valid_next_day)
  have o: "toordinal (next_day dt) = toordinal dt + 1" using Suc.prems(1) by (rule toordinal_next_day)
  from Suc.IH [OF v] Suc.prems(2) o show ?case by simp
qed

subsection \<open>The regular expression\<close>

lemma isdecimal_ascii: "48 \<le> c \<Longrightarrow> c \<le> 57 \<Longrightarrow> isdecimal_cp c"
  by (simp add: isdecimal_cp_def in_ranges_def decimal_ranges_def)

lemma decimal_value_ascii: "48 \<le> c \<Longrightarrow> c \<le> 57 \<Longrightarrow> decimal_value c = c - 48"
  by (simp add: decimal_value_def decimal_ranges_def)

lemma isdecimal_not_dot: "isdecimal_cp c \<Longrightarrow> c \<noteq> 46"
  by (auto simp: isdecimal_cp_def in_ranges_def decimal_ranges_def)

lemma isdecimal_not_space: "isdecimal_cp c \<Longrightarrow> \<not> isspace_cp c"
  by (auto simp: isdecimal_cp_def isspace_cp_def in_ranges_def decimal_ranges_def whitespace_ranges_def)

lemma re_d_sound:
  assumes "(g, r) \<in> set (re_d s)"
  shows "s = g @ r \<and> day_token g"
  using assms
  by (auto simp: re_d_def alt1_def alt2_def split: list.splits if_splits)

lemma re_m_sound:
  assumes "(g, r) \<in> set (re_m s)"
  shows "s = g @ r \<and> month_token g"
  using assms
  by (auto simp: re_m_def alt1_def alt2_def split: list.splits if_splits)

lemma re_Y_sound:
  assumes "(g, r) \<in> set (re_Y s)"
  shows "s = g @ r \<and> year_token g"
  using assms
  by (auto simp: re_Y_def split: list.splits if_splits)

lemma lit_sound: "r \<in> set (lit c s) \<Longrightarrow> s = c # r"
  by (auto simp: lit_def split: list.splits if_splits)

lemma re_d_then_dot:
  assumes "day_token g"
  shows "concat (map (\<lambda>(g', r1). concat (map (F g') (lit 46 r1))) (re_d (g @ 46 # t))) = F g t"
  using assms
proof (induction g rule: day_token.induct)
  case (1 a)
  then show ?case
    by (auto simp: re_d_def alt1_def alt2_def lit_def between_def dest: isdecimal_not_dot)
next
  case (2 a b)
  then show ?case
    by (auto simp: re_d_def alt1_def alt2_def lit_def between_def dest: isdecimal_not_dot)
qed simp_all

lemma re_m_then_dot:
  assumes "month_token g"
  shows "concat (map (\<lambda>(g', r1). concat (map (F g') (lit 46 r1))) (re_m (g @ 46 # t))) = F g t"
  using assms
proof (induction g rule: month_token.induct)
  case (1 a)
  then show ?case
    by (auto simp: re_m_def alt1_def alt2_def lit_def between_def)
next
  case (2 a b)
  then show ?case
    by (auto simp: re_m_def alt1_def alt2_def lit_def between_def)
qed simp_all

lemma re_Y_complete:
  assumes "year_token g"
  shows "re_Y (g @ t) = [(g, t)]"
  using assms
  by (induction g rule: year_token.induct) (simp_all add: re_Y_def)

lemma format_regex_match_complete:
  assumes "day_token dg" "month_token mg" "year_token yg"
  shows "format_regex_match (dg @ 46 # mg @ 46 # yg @ t) = [(dg, mg, yg, t)]"
  unfolding format_regex_match_def
  by (simp add: re_d_then_dot [OF assms(1)] re_m_then_dot [OF assms(2)] re_Y_complete [OF assms(3)])

lemma format_regex_match_sound:
  assumes "(dg, mg, yg, t) \<in> set (format_regex_match s)"
  shows "s = dg @ 46 # mg @ 46 # yg @ t \<and> day_token dg \<and> month_token mg \<and> year_token yg"
  using assms unfolding format_regex_match_def
  by (auto dest!: re_d_sound re_m_sound re_Y_sound lit_sound)

lemma format_regex_match_cases:
  "format_regex_match s = [] \<or>
   (\<exists>dg mg yg t. format_regex_match s = [(dg, mg, yg, t)] \<and> s = dg @ 46 # mg @ 46 # yg @ t \<and>
      day_token dg \<and> month_token mg \<and> year_token yg)"
proof (cases "format_regex_match s")
  case Nil
  then show ?thesis by simp
next
  case (Cons x xs)
  obtain dg mg yg t where x: "x = (dg, mg, yg, t)" by (cases x) auto
  with Cons have "(dg, mg, yg, t) \<in> set (format_regex_match s)" by simp
  from format_regex_match_sound [OF this]
  have s: "s = dg @ 46 # mg @ 46 # yg @ t" and tok: "day_token dg" "month_token mg" "year_token yg"
    by simp_all
  from format_regex_match_complete [OF tok, of t] s
  have "format_regex_match s = [(dg, mg, yg, t)]" by simp
  with s tok show ?thesis by blast
qed

subsection \<open>Parsing and formatting\<close>

lemma date_new_Inr:
  "date_new y m d = Inr dt \<longleftrightarrow> check_date_fields y m d \<and> dt = \<lparr>year = y, month = m, day = d\<rparr>"
  by (auto simp: date_new_def)

lemma date_new_Inl: "date_new y m d = Inl e \<Longrightarrow> e = ValueError Date_out_of_range"
  by (auto simp: date_new_def split: if_splits)

lemma date_new_valid: "date_new y m d = Inr dt \<Longrightarrow> valid_date dt"
  by (auto simp: date_new_def valid_date_def split: if_splits)

lemma strptime_iff:
  "strptime s = Inr dt \<longleftrightarrow>
     (\<exists>dg mg yg. s = dg @ 46 # mg @ 46 # yg \<and> day_token dg \<and> month_token mg \<and> year_token yg \<and>
        date_new (py_int yg) (py_int mg) (py_int dg) = Inr dt)"
proof
  assume a: "strptime s = Inr dt"
  from format_regex_match_cases [of s] show "\<exists>dg mg yg. s = dg @ 46 # mg @ 46 # yg \<and> day_token dg \<and>
      month_token mg \<and> year_token yg \<and> date_new (py_int yg) (py_int mg) (py_int dg) = Inr dt"
  proof
    assume "format_regex_match s = []"
    with a show ?thesis by (simp add: strptime_def)
  next
    assume "\<exists>dg mg yg t. format_regex_match s = [(dg, mg, yg, t)] \<and> s = dg @ 46 # mg @ 46 # yg @ t \<and>
      day_token dg \<and> month_token mg \<and> year_token yg"
    then obtain dg mg yg t where m: "format_regex_match s = [(dg, mg, yg, t)]"
      and s: "s = dg @ 46 # mg @ 46 # yg @ t"
      and tok: "day_token dg" "month_token mg" "year_token yg"
      by blast
    from a m have "t = []" "date_new (py_int yg) (py_int mg) (py_int dg) = Inr dt"
      by (auto simp: strptime_def split: if_splits)
    with s tok show ?thesis by auto
  qed
next
  assume "\<exists>dg mg yg. s = dg @ 46 # mg @ 46 # yg \<and> day_token dg \<and> month_token mg \<and> year_token yg \<and>
        date_new (py_int yg) (py_int mg) (py_int dg) = Inr dt"
  then obtain dg mg yg where s: "s = dg @ 46 # mg @ 46 # yg"
    and tok: "day_token dg" "month_token mg" "year_token yg"
    and d: "date_new (py_int yg) (py_int mg) (py_int dg) = Inr dt"
    by blast
  from format_regex_match_complete [OF tok, of "[]"] s d
  show "strptime s = Inr dt" by (simp add: strptime_def)
qed

lemma strptime_Inl: "strptime s = Inl e \<Longrightarrow> \<exists>m. e = ValueError m"
  by (auto simp: strptime_def split: list.splits if_splits dest!: date_new_Inl)

lemma strptime_valid: "strptime s = Inr dt \<Longrightarrow> valid_date dt"
  by (auto simp: strptime_iff dest: date_new_valid)

lemma ascii_digit_not_space: "48 \<le> c \<Longrightarrow> c \<le> 57 \<Longrightarrow> \<not> isspace_cp c"
  by (simp add: isspace_cp_def in_ranges_def whitespace_ranges_def)

lemma strip_no_space:
  assumes "s \<noteq> []" "\<not> isspace_cp (hd s)" "\<not> isspace_cp (last s)"
  shows "strip s = s"
proof -
  from assms(1,2) have "dropWhile isspace_cp s = s"
    by (cases s) simp_all
  moreover from assms(1,3) have "dropWhile isspace_cp (rev s) = rev s"
    by (cases "rev s") (simp_all flip: hd_rev)
  ultimately show ?thesis by (simp add: strip_def)
qed

lemma py_int_digits2:
  assumes "0 \<le> a" "a \<le> 9" "0 \<le> b" "b \<le> 9"
  shows "py_int [48 + a, 48 + b] = 10 * a + b"
proof -
  have "strip [48 + a, 48 + b] = [48 + a, 48 + b]"
    using assms by (intro strip_no_space) (simp_all add: ascii_digit_not_space)
  then show ?thesis
    using assms by (simp add: py_int_def decimal_value_ascii)
qed

lemma py_int_digits4:
  assumes "0 \<le> a" "a \<le> 9" "0 \<le> b" "b \<le> 9" "0 \<le> c" "c \<le> 9" "0 \<le> d" "d \<le> 9"
  shows "py_int [48 + a, 48 + b, 48 + c, 48 + d] = 10 * (10 * (10 * a + b) + c) + d"
proof -
  have "strip [48 + a, 48 + b, 48 + c, 48 + d] = [48 + a, 48 + b, 48 + c, 48 + d]"
    using assms by (intro strip_no_space) (simp_all add: ascii_digit_not_space)
  then show ?thesis
    using assms by (simp add: py_int_def decimal_value_ascii)
qed

lemma mod_10_bounds: "0 \<le> (n::int) mod 10 \<and> n mod 10 \<le> 9"
  by simp

lemma div_10_bounds:
  fixes n :: int
  assumes "0 \<le> n" "n \<le> 99"
  shows "0 \<le> n div 10 \<and> n div 10 \<le> 9"
proof -
  have "n div 10 \<le> 99 div 10" using assms(2) by (rule zdiv_mono1) simp
  moreover have "0 \<le> n div 10" using assms(1) by (simp add: pos_imp_zdiv_nonneg_iff)
  ultimately show ?thesis by simp
qed

lemma div_1000_bounds:
  fixes n :: int
  assumes "0 \<le> n" "n \<le> 9999"
  shows "0 \<le> n div 1000 \<and> n div 1000 \<le> 9"
proof -
  have "n div 1000 \<le> 9999 div 1000" using assms(2) by (rule zdiv_mono1) simp
  moreover have "0 \<le> n div 1000" using assms(1) by (simp add: pos_imp_zdiv_nonneg_iff)
  ultimately show ?thesis by simp
qed

lemma py_int_fmt_02d:
  assumes "0 \<le> n" "n \<le> 99"
  shows "py_int (fmt_02d n) = n"
proof -
  have "py_int (fmt_02d n) = 10 * (n div 10) + n mod 10"
    unfolding fmt_02d_def using div_10_bounds [OF assms] mod_10_bounds [of n]
    by (intro py_int_digits2) simp_all
  then show ?thesis by (simp only: mult_div_mod_eq)
qed

lemma digits4:
  fixes n :: int
  assumes "10 * a + r0 = n" "10 * b + r1 = a" "10 * c + r2 = b"
  shows "10 * (10 * (10 * c + r2) + r1) + r0 = n"
  using assms by simp

lemma digits4_div:
  fixes n :: int
  shows "10 * (10 * (10 * (n div 1000) + n div 100 mod 10) + n div 10 mod 10) + n mod 10 = n"
proof (rule digits4)
  show "10 * (n div 10) + n mod 10 = n" by (rule mult_div_mod_eq)
  have "n div 100 = n div 10 div 10" using zdiv_zmult2_eq [of 10 n 10] by simp
  then show "10 * (n div 100) + n div 10 mod 10 = n div 10" by (simp only: mult_div_mod_eq)
  have "n div 1000 = n div 100 div 10" using zdiv_zmult2_eq [of 10 n 100] by simp
  then show "10 * (n div 1000) + n div 100 mod 10 = n div 100" by (simp only: mult_div_mod_eq)
qed

lemma fmt_year_four:
  assumes "1000 \<le> n"
  shows "fmt_year n = [48 + n div 1000, 48 + n div 100 mod 10, 48 + n div 10 mod 10, 48 + n mod 10]"
  using assms by (simp add: fmt_year_def)

lemma py_int_fmt_year:
  assumes "1000 \<le> n" "n \<le> 9999"
  shows "py_int (fmt_year n) = n"
proof -
  from assms have n: "0 \<le> n" "n \<le> 9999" by simp_all
  have "py_int (fmt_year n) =
      10 * (10 * (10 * (n div 1000) + n div 100 mod 10) + n div 10 mod 10) + n mod 10"
    unfolding fmt_year_four [OF assms(1)]
    using div_1000_bounds [OF n] mod_10_bounds [of n] mod_10_bounds [of "n div 10"]
      mod_10_bounds [of "n div 100"]
    by (intro py_int_digits4) simp_all
  then show ?thesis by (simp only: digits4_div)
qed

lemma day_token_fmt_02d:
  assumes "1 \<le> d" "d \<le> 31"
  shows "day_token (fmt_02d d)"
proof -
  have "d div 10 = 0 \<and> 1 \<le> d mod 10 \<or> d div 10 = 1 \<or> d div 10 = 2 \<or> d div 10 = 3 \<and> d mod 10 \<le> 1"
    using assms by presburger
  moreover have "0 \<le> d mod 10" "d mod 10 \<le> 9" by simp_all
  ultimately show ?thesis
    by (auto simp: fmt_02d_def between_def intro: isdecimal_ascii)
qed

lemma month_token_fmt_02d:
  assumes "1 \<le> m" "m \<le> 12"
  shows "month_token (fmt_02d m)"
proof -
  have "m div 10 = 0 \<and> 1 \<le> m mod 10 \<or> m div 10 = 1 \<and> m mod 10 \<le> 2"
    using assms by presburger
  moreover have "0 \<le> m mod 10" "m mod 10 \<le> 9" by simp_all
  ultimately show ?thesis
    by (auto simp: fmt_02d_def between_def)
qed

lemma year_token_fmt_year:
  assumes "1000 \<le> y" "y \<le> 9999"
  shows "year_token (fmt_year y)"
proof -
  from assms have n: "0 \<le> y" "y \<le> 9999" by simp_all
  have "48 \<le> 48 + y div 1000" "48 + y div 1000 \<le> 57"
    using div_1000_bounds [OF n] by simp_all
  then show ?thesis
    by (simp add: fmt_year_four [OF assms(1)] isdecimal_ascii)
qed

lemma strptime_strftime:
  assumes "valid_date dt" "1000 \<le> year dt"
  shows "strptime (strftime dt) = Inr dt"
proof -
  from assms(1) have f: "1 \<le> year dt" "year dt \<le> 9999" "1 \<le> month dt" "month dt \<le> 12"
    "1 \<le> day dt" "day dt \<le> days_in_month (year dt) (month dt)"
    by (simp_all add: valid_date_def check_date_fields_def MINYEAR_def MAXYEAR_def)
  from days_in_month_bounds [OF f(3,4), of "year dt"] f(6) have d31: "day dt \<le> 31" by simp
  have tok: "day_token (fmt_02d (day dt))" "month_token (fmt_02d (month dt))"
      "year_token (fmt_year (year dt))"
    using f d31 assms(2) by (simp_all add: day_token_fmt_02d month_token_fmt_02d year_token_fmt_year)
  have i: "py_int (fmt_02d (day dt)) = day dt" "py_int (fmt_02d (month dt)) = month dt"
      "py_int (fmt_year (year dt)) = year dt"
    using f d31 assms(2) by (simp_all add: py_int_fmt_02d py_int_fmt_year)
  have "date_new (year dt) (month dt) (day dt) = Inr dt"
    using assms(1) by (simp add: date_new_def valid_date_def)
  with tok i show ?thesis
    unfolding strptime_iff strftime_def
    by (intro exI [of _ "fmt_02d (day dt)"] exI [of _ "fmt_02d (month dt)"]
        exI [of _ "fmt_year (year dt)"]) simp
qed

subsection \<open>The occurrence of a birthday\<close>

lemma valid_date_fields:
  assumes "valid_date dt"
  shows "1 \<le> year dt" "year dt \<le> 9999" "1 \<le> month dt" "month dt \<le> 12"
    "1 \<le> day dt" "day dt \<le> days_in_month (year dt) (month dt)"
  using assms by (simp_all add: valid_date_def check_date_fields_def MINYEAR_def MAXYEAR_def)






subsection \<open>The date of congratulation\<close>

lemma weekday_range: "0 \<le> weekday d \<and> weekday d \<le> 6"
  by (simp add: weekday_def)

lemma weekend_room:
  assumes "valid_date d"
  shows "toordinal d + int (weekend_shift d) \<le> MAXORDINAL"
proof -
  from toordinal_bounds [OF assms] have b: "toordinal d \<le> 3652059"
    by (simp add: MAXORDINAL_def)
  have "(toordinal d + 6) mod 7 = 5 \<Longrightarrow> toordinal d + 2 \<le> 3652059"
    using b by presburger
  moreover have "(toordinal d + 6) mod 7 = 6 \<Longrightarrow> toordinal d + 1 \<le> 3652059"
    using b by presburger
  ultimately show ?thesis
    using b by (simp add: weekend_shift_def weekday_def MAXORDINAL_def)
qed

lemma congrat_date_eq:
  assumes "valid_date d"
  shows "congrat_date d = Inr (add_days d (weekend_shift d))"
proof -
  from toordinal_bounds [OF assms] have lo: "0 < toordinal d" by simp
  from weekend_room [OF assms] lo show ?thesis
    by (cases "weekday d = 5"; cases "weekday d = 6")
       (simp_all add: congrat_date_def date_add_def weekend_shift_def Let_def)
qed

lemma add_days_weekend:
  assumes "valid_date d"
  shows "valid_date (add_days d (weekend_shift d)) \<and>
    toordinal (add_days d (weekend_shift d)) = toordinal d + int (weekend_shift d)"
  using assms weekend_room [OF assms] by (rule add_days_correct)

lemma weekday_after_shift:
  assumes "valid_date d"
  shows "weekday (add_days d (weekend_shift d)) = (if weekday d < 5 then weekday d else 0)"
proof -
  from add_days_weekend [OF assms]
  have o: "toordinal (add_days d (weekend_shift d)) = toordinal d + int (weekend_shift d)" by simp
  have w: "weekday (add_days d (weekend_shift d)) = (toordinal d + int (weekend_shift d) + 6) mod 7"
    by (simp only: weekday_def o)
  have r: "(toordinal d + 6) mod 7 \<le> 6" by simp
  show ?thesis
  proof (cases "weekday d = 5")
    case True
    then have "(toordinal d + 2 + 6) mod 7 = 0"
      unfolding weekday_def by presburger
    with True show ?thesis unfolding w by (simp add: weekend_shift_def)
  next
    case False
    show ?thesis
    proof (cases "weekday d = 6")
      case True
      then have "(toordinal d + 1 + 6) mod 7 = 0"
        unfolding weekday_def by presburger
      with True show ?thesis unfolding w by (simp add: weekend_shift_def)
    next
      case False
      with \<open>weekday d \<noteq> 5\<close> r have "weekday d < 5" by (simp add: weekday_def)
      with False \<open>weekday d \<noteq> 5\<close> show ?thesis
        unfolding w by (simp add: weekend_shift_def weekday_def)
    qed
  qed
qed

subsection \<open>The loop over the records\<close>








subsection \<open>Sorting the entries\<close>

lemma sort_keys_Inr:
  "sort_keys xs = Inr ks \<Longrightarrow>
     ks = map congratulation_key xs \<and> list_all (\<lambda>x. \<exists>d. strptime (snd x) = Inr d) xs"
  by (induction xs arbitrary: ks) (auto simp: congratulation_key_def split: sum.splits)


lemma insort_key_decorated:
  "insort_key fst (f x, x) (map (\<lambda>y. (f y, y)) ys) = map (\<lambda>y. (f y, y)) (insort_key f x ys)"
  by (induction ys) simp_all

lemma sort_key_decorated:
  "sort_key fst (map (\<lambda>y. (f y, y)) xs) = map (\<lambda>y. (f y, y)) (sort_key f xs)"
  by (induction xs) (simp_all add: insort_key_decorated)

lemma zip_map_self: "zip (map f xs) xs = map (\<lambda>y. (f y, y)) xs"
  by (induction xs) simp_all

lemma sort_by_date_Inr:
  assumes "sort_by_date xs = Inr ys"
  shows "ys = sort_key congratulation_key xs \<and> list_all (\<lambda>x. \<exists>d. strptime (snd x) = Inr d) xs"
proof -
  from assms obtain ks where k: "sort_keys xs = Inr ks"
    and y: "ys = map snd (sort_key fst (zip ks xs))"
    by (auto simp: sort_by_date_def split: sum.splits)
  from sort_keys_Inr [OF k] have ks: "ks = map congratulation_key xs"
    and p: "list_all (\<lambda>x. \<exists>d. strptime (snd x) = Inr d) xs" by simp_all
  have "ys = sort_key congratulation_key xs"
    unfolding y ks zip_map_self sort_key_decorated by (simp add: comp_def)
  with p show ?thesis by simp
qed








lemma is_DD_MM_YYYY_strftime:
  assumes "valid_date dt" "1000 \<le> year dt"
  shows "is_DD_MM_YYYY (strftime dt)"
proof -
  note f = valid_date_fields [OF assms(1)]
  from days_in_month_bounds [OF f(3,4), of "year dt"] f(6) have "day dt \<le> 99" by simp
  with f have d: "0 \<le> day dt div 10 \<and> day dt div 10 \<le> 9" by (intro div_10_bounds) simp_all
  from f have m: "0 \<le> month dt div 10 \<and> month dt div 10 \<le> 9" by (intro div_10_bounds) simp_all
  from f have y: "0 \<le> year dt div 1000 \<and> year dt div 1000 \<le> 9" by (intro div_1000_bounds) simp_all
  from d m y mod_10_bounds [of "day dt"] mod_10_bounds [of "month dt"] mod_10_bounds [of "year dt"]
    mod_10_bounds [of "year dt div 10"] mod_10_bounds [of "year dt div 100"]
  show ?thesis
    by (simp add: strftime_def fmt_02d_def fmt_year_four [OF assms(2)] is_ascii_digit_def)
qed

subsection \<open>One record in the loop\<close>

lemma safe_birthday_for_year_valid:
  assumes "safe_birthday_for_year bday y = Inr d"
  shows "valid_date d"
  using assms
  by (auto simp: safe_birthday_for_year_def replace_year_def
      split: sum.splits error.splits dest: date_new_valid)

lemma birthday_this_year_valid:
  assumes "birthday_this_year bday today = Inr occ"
  shows "valid_date occ"
  using assms
  by (auto simp: birthday_this_year_def split: sum.splits if_splits
      dest: safe_birthday_for_year_valid)

lemma upcoming_entry_steps:
  assumes "birthday r = Some b" "date_value b = Inr bday"
    and "birthday_this_year bday today = Inr occ" "congrat_date occ = Inr cd"
  shows "upcoming_entry today days r =
    Inr (if 0 \<le> days_between cd today \<and> days_between cd today \<le> days
         then Some (name r, strftime cd) else None)"
  using assms by (simp add: upcoming_entry_def Let_def)

lemma upcoming_loop_member:
  assumes "upcoming_loop today days rs acc = Inr out"
  shows "set acc \<subseteq> set out \<and>
    (\<forall>r \<in> set rs. \<forall>x. upcoming_entry today days r = Inr (Some x) \<longrightarrow> x \<in> set out)"
  using assms
proof (induction rs arbitrary: acc)
  case Nil
  then show ?case by simp
next
  case (Cons r rs)
  show ?case
  proof (cases "upcoming_entry today days r")
    case (Inl e)
    with Cons.prems show ?thesis by simp
  next
    case (Inr x)
    show ?thesis
    proof (cases x)
      case None
      with Inr Cons.prems have "upcoming_loop today days rs acc = Inr out" by simp
      from Cons.IH [OF this] Inr None show ?thesis by auto
    next
      case (Some e)
      with Inr Cons.prems have "upcoming_loop today days rs (acc @ [e]) = Inr out" by simp
      from Cons.IH [OF this] Inr Some show ?thesis by auto
    qed
  qed
qed

lemma get_upcoming_birthdays_member:
  assumes "get_upcoming_birthdays book today days = Inr us" "r \<in> set (map snd book)"
    and "upcoming_entry today days r = Inr (Some x)"
  shows "x \<in> set us"
proof -
  from assms(1) obtain upcoming where l: "upcoming_loop today days (map snd book) [] = Inr upcoming"
    and s: "sort_by_date upcoming = Inr us"
    by (auto simp: get_upcoming_birthdays_def split: sum.splits)
  from sort_by_date_Inr [OF s] have "set us = set upcoming" by simp
  with upcoming_loop_member [OF l] assms(2,3) show ?thesis by blast
qed

lemma get_upcoming_birthdays_single:
  assumes "get_upcoming_birthdays [(k, r)] today days = Inr us"
    and "upcoming_entry today days r = Inr x"
  shows "us = (case x of None \<Rightarrow> [] | Some e \<Rightarrow> [e])"
proof -
  from assms obtain upcoming where l: "upcoming_loop today days [r] [] = Inr upcoming"
    and s: "sort_by_date upcoming = Inr us"
    by (auto simp: get_upcoming_birthdays_def split: sum.splits)
  from l assms(2) have "upcoming = (case x of None \<Rightarrow> [] | Some e \<Rightarrow> [e])"
    by (auto split: option.splits)
  with sort_by_date_Inr [OF s] show ?thesis
    by (auto split: option.splits)
qed

section \<open>The claims about upcoming birthdays\<close>







text \<open>
  Claim C3. In the loop of \<^verbatim>\<open>get_upcoming_birthdays\<close> the date of congratulation of
  every occurrence is the occurrence plus two days when the occurrence is a Saturday
  (weekday 5), plus one day when it is a Sunday (weekday 6), and the occurrence itself
  otherwise; computing it never raises. Days are numbered from Monday = 0 in a week of
  seven, so a moved date is a Monday; 1 January 2024 was a Monday. The entry of the
  record carries this date and is in the result exactly when the date is within the
  window, so a shift can push it out of the window.
\<close>

theorem congratulation_after_weekend:
  assumes "birthday r = Some b" "date_value b = Inr bday"
    and "birthday_this_year bday today = Inr occ"
  shows "\<exists>cd. congrat_date occ = Inr cd \<and> valid_date cd \<and>
    toordinal cd = toordinal occ + (if weekday occ = 5 then 2 else if weekday occ = 6 then 1 else 0) \<and>
    (weekday occ < 5 \<longrightarrow> cd = occ) \<and>
    weekday cd = (if weekday occ < 5 then weekday occ else 0) \<and>
    0 \<le> weekday occ \<and> weekday occ \<le> 6 \<and>
    weekday \<lparr>year = 2024, month = 1, day = 1\<rparr> = 0 \<and>
    upcoming_entry today days r =
      Inr (if 0 \<le> days_between cd today \<and> days_between cd today \<le> days
           then Some (name r, strftime cd) else None) \<and>
    (\<forall>k us. get_upcoming_birthdays [(k, r)] today days = Inr us \<longrightarrow>
       us = (if 0 \<le> days_between cd today \<and> days_between cd today \<le> days
             then [(name r, strftime cd)] else [])) \<and>
    (\<forall>book us. r \<in> set (map snd book) \<and> get_upcoming_birthdays book today days = Inr us \<and>
       0 \<le> days_between cd today \<and> days_between cd today \<le> days \<longrightarrow>
       (name r, strftime cd) \<in> set us)"
proof -
  let ?cd = "add_days occ (weekend_shift occ)"
  let ?x = "if 0 \<le> days_between ?cd today \<and> days_between ?cd today \<le> days
           then Some (name r, strftime ?cd) else None"
  have v: "valid_date occ" using assms(3) by (rule birthday_this_year_valid)
  have c: "congrat_date occ = Inr ?cd" using v by (rule congrat_date_eq)
  have 1: "valid_date ?cd" using add_days_weekend [OF v] by simp
  have 2: "toordinal ?cd =
      toordinal occ + (if weekday occ = 5 then 2 else if weekday occ = 6 then 1 else 0)"
    using add_days_weekend [OF v] by (simp add: weekend_shift_def)
  have 3: "weekday occ < 5 \<longrightarrow> ?cd = occ" by (simp add: weekend_shift_def)
  have 4: "weekday ?cd = (if weekday occ < 5 then weekday occ else 0)"
    using v by (rule weekday_after_shift)
  have 5: "weekday \<lparr>year = 2024, month = 1, day = 1\<rparr> = 0" by code_simp
  have e: "upcoming_entry today days r = Inr ?x"
    using assms c by (rule upcoming_entry_steps)
  have s: "\<forall>k us. get_upcoming_birthdays [(k, r)] today days = Inr us \<longrightarrow>
       us = (if 0 \<le> days_between ?cd today \<and> days_between ?cd today \<le> days
             then [(name r, strftime ?cd)] else [])"
  proof (intro allI impI)
    fix k us assume "get_upcoming_birthdays [(k, r)] today days = Inr us"
    from get_upcoming_birthdays_single [OF this e]
    show "us = (if 0 \<le> days_between ?cd today \<and> days_between ?cd today \<le> days
             then [(name r, strftime ?cd)] else [])"
      by simp
  qed
  have m: "\<forall>book us. r \<in> set (map snd book) \<and> get_upcoming_birthdays book today days = Inr us \<and>
       0 \<le> days_between ?cd today \<and> days_between ?cd today \<le> days \<longrightarrow>
       (name r, strftime ?cd) \<in> set us"
  proof (intro allI impI)
    fix book us
    assume a: "r \<in> set (map snd book) \<and> get_upcoming_birthdays book today days = Inr us \<and>
       0 \<le> days_between ?cd today \<and> days_between ?cd today \<le> days"
    with e have "upcoming_entry today days r = Inr (Some (name r, strftime ?cd))" by simp
    with a show "(name r, strftime ?cd) \<in> set us"
      using get_upcoming_birthdays_member by blast
  qed
  from c 1 2 3 4 5 e s m weekday_range [of occ] show ?thesis by blast
qed

theorem congratulation_after_weekend_witness:
  "date_value (u ''04.01.1990'') = Inr \<lparr>year = 1990, month = 1, day = 4\<rparr> \<and>
   birthday_this_year \<lparr>year = 1990, month = 1, day = 4\<rparr> \<lparr>year = 2025, month = 1, day = 1\<rparr> =
     Inr \<lparr>year = 2025, month = 1, day = 4\<rparr> \<and>
   weekday \<lparr>year = 2025, month = 1, day = 4\<rparr> = 5 \<and>
   congrat_date \<lparr>year = 2025, month = 1, day = 4\<rparr> = Inr \<lparr>year = 2025, month = 1, day = 6\<rparr> \<and>
   (\<exists>cd. congrat_date \<lparr>year = 2025, month = 1, day = 4\<rparr> = Inr cd \<and>
      toordinal cd = toordinal \<lparr>year = 2025, month = 1, day = 4\<rparr> + 2 \<and> weekday cd = 0 \<and>
      upcoming_entry \<lparr>year = 2025, month = 1, day = 1\<rparr> 7
        \<lparr>name = u ''Ann'', phones = [], birthday = Some (u ''04.01.1990'')\<rparr> =
        Inr (if 0 \<le> days_between cd \<lparr>year = 2025, month = 1, day = 1\<rparr> \<and>
                days_between cd \<lparr>year = 2025, month = 1, day = 1\<rparr> \<le> 7
             then Some (u ''Ann'', strftime cd) else None)) \<and>
   get_upcoming_birthdays
     [(u ''Ann'', \<lparr>name = u ''Ann'', phones = [], birthday = Some (u ''04.01.1990'')\<rparr>)]
     \<lparr>year = 2025, month = 1, day = 1\<rparr> 7 = Inr [(u ''Ann'', u ''06.01.2025'')] \<and>
   get_upcoming_birthdays
     [(u ''Ann'', \<lparr>name = u ''Ann'', phones = [], birthday = Some (u ''04.01.1990'')\<rparr>)]
     \<lparr>year = 2025, month = 1, day = 1\<rparr> 3 = Inr []"
proof -
  let ?today = "\<lparr>year = 2025, month = 1, day = 1\<rparr>"
  let ?occ = "\<lparr>year = 2025, month = 1, day = 4\<rparr>"
  let ?r = "\<lparr>name = u ''Ann'', phones = [], birthday = Some (u ''04.01.1990'')\<rparr>"
  have h1: "birthday ?r = Some (u ''04.01.1990'')" by simp
  have h2: "date_value (u ''04.01.1990'') = Inr \<lparr>year = 1990, month = 1, day = 4\<rparr>" by code_simp
  have h3: "birthday_this_year \<lparr>year = 1990, month = 1, day = 4\<rparr> ?today = Inr ?occ" by code_simp
  have w: "weekday ?occ = 5" by code_simp
  have c: "congrat_date ?occ = Inr \<lparr>year = 2025, month = 1, day = 6\<rparr>" by code_simp
  have g7: "get_upcoming_birthdays [(u ''Ann'', ?r)] ?today 7 = Inr [(u ''Ann'', u ''06.01.2025'')]"
    by code_simp
  have g3: "get_upcoming_birthdays [(u ''Ann'', ?r)] ?today 3 = Inr []"
    by code_simp
  from congratulation_after_weekend [OF h1 h2 h3, of 7] w
  have "\<exists>cd. congrat_date ?occ = Inr cd \<and> toordinal cd = toordinal ?occ + 2 \<and> weekday cd = 0 \<and>
      upcoming_entry ?today 7 ?r =
        Inr (if 0 \<le> days_between cd ?today \<and> days_between cd ?today \<le> 7
             then Some (u ''Ann'', strftime cd) else None)"
    by auto
  with h2 h3 w c g7 g3 show ?thesis by blast
qed




text \<open>
  Claim C5. The sequence that \<^verbatim>\<open>get_upcoming_birthdays\<close> returns is sorted ascending
  by the date of congratulation (the key of the sort: the string of the entry parsed
  back into a date, dates being ordered as year, month, day). The sort is stable:
  entries with the same date are in the order in which the loop appended them, which is
  the order of the records in the book. The result is a function of the book, the
  window and \<open>today\<close>, so equal arguments give equal sequences. Two due contacts with
  the dates 03.01.2025 and 01.01.2025 are returned with 01.01.2025 first.
\<close>

theorem upcoming_birthdays_sorted:
  assumes "get_upcoming_birthdays book today days = Inr us"
  shows "(\<exists>upcoming. upcoming_loop today days (map snd book) [] = Inr upcoming \<and>
      sorted (map congratulation_key us) \<and>
      (\<forall>k. filter (\<lambda>x. congratulation_key x = k) us = filter (\<lambda>x. congratulation_key x = k) upcoming) \<and>
      mset us = mset upcoming \<and>
      list_all (\<lambda>x. \<exists>d. strptime (snd x) = Inr d \<and> congratulation_key x = date_key d) us) \<and>
    get_upcoming_birthdays
      [(u ''Ann'', \<lparr>name = u ''Ann'', phones = [], birthday = Some (u ''03.01.1990'')\<rparr>),
       (u ''Bob'', \<lparr>name = u ''Bob'', phones = [], birthday = Some (u ''01.01.1985'')\<rparr>)]
      \<lparr>year = 2025, month = 1, day = 1\<rparr> 7 =
      Inr [(u ''Bob'', u ''01.01.2025''), (u ''Ann'', u ''03.01.2025'')]"
proof -
  from assms obtain upcoming where l: "upcoming_loop today days (map snd book) [] = Inr upcoming"
    and s: "sort_by_date upcoming = Inr us"
    by (auto simp: get_upcoming_birthdays_def split: sum.splits)
  from sort_by_date_Inr [OF s] have us: "us = sort_key congratulation_key upcoming"
    and p: "list_all (\<lambda>x. \<exists>d. strptime (snd x) = Inr d) upcoming" by simp_all
  have 1: "sorted (map congratulation_key us)"
    unfolding us by (rule sorted_sort_key)
  have 2: "\<forall>k. filter (\<lambda>x. congratulation_key x = k) us =
      filter (\<lambda>x. congratulation_key x = k) upcoming"
    unfolding us by (simp add: sort_key_stable)
  have 3: "mset us = mset upcoming"
    unfolding us by simp
  have 4: "list_all (\<lambda>x. \<exists>d. strptime (snd x) = Inr d \<and> congratulation_key x = date_key d) us"
    using p unfolding us by (auto simp: list_all_iff congratulation_key_def)
  have 5: "get_upcoming_birthdays
      [(u ''Ann'', \<lparr>name = u ''Ann'', phones = [], birthday = Some (u ''03.01.1990'')\<rparr>),
       (u ''Bob'', \<lparr>name = u ''Bob'', phones = [], birthday = Some (u ''01.01.1985'')\<rparr>)]
      \<lparr>year = 2025, month = 1, day = 1\<rparr> 7 =
      Inr [(u ''Bob'', u ''01.01.2025''), (u ''Ann'', u ''03.01.2025'')]"
    by code_simp
  from l 1 2 3 4 5 show ?thesis by blast
qed

theorem upcoming_birthdays_sorted_witness:
  "get_upcoming_birthdays
     [(u ''Ann'', \<lparr>name = u ''Ann'', phones = [], birthday = Some (u ''06.01.1990'')\<rparr>),
      (u ''Bob'', \<lparr>name = u ''Bob'', phones = [], birthday = Some (u ''02.01.1985'')\<rparr>),
      (u ''Eve'', \<lparr>name = u ''Eve'', phones = [], birthday = Some (u ''04.01.1970'')\<rparr>)]
     \<lparr>year = 2025, month = 1, day = 1\<rparr> 7 =
     Inr [(u ''Bob'', u ''02.01.2025''), (u ''Ann'', u ''06.01.2025''), (u ''Eve'', u ''06.01.2025'')] \<and>
   sorted (map congratulation_key
     [(u ''Bob'', u ''02.01.2025''), (u ''Ann'', u ''06.01.2025''), (u ''Eve'', u ''06.01.2025'')])"
proof -
  have r: "get_upcoming_birthdays
     [(u ''Ann'', \<lparr>name = u ''Ann'', phones = [], birthday = Some (u ''06.01.1990'')\<rparr>),
      (u ''Bob'', \<lparr>name = u ''Bob'', phones = [], birthday = Some (u ''02.01.1985'')\<rparr>),
      (u ''Eve'', \<lparr>name = u ''Eve'', phones = [], birthday = Some (u ''04.01.1970'')\<rparr>)]
     \<lparr>year = 2025, month = 1, day = 1\<rparr> 7 =
     Inr [(u ''Bob'', u ''02.01.2025''), (u ''Ann'', u ''06.01.2025''), (u ''Eve'', u ''06.01.2025'')]"
    by code_simp
  from upcoming_birthdays_sorted [OF r] r show ?thesis by blast
qed

section \<open>The claims about the fields\<close>

lemma ascii_digit_isdigit: "is_ascii_digit c \<Longrightarrow> isdigit_cp c"
  by (simp add: is_ascii_digit_def isdigit_cp_def isdecimal_ascii)

lemma Phone_eq:
  "Phone v =
    (if length (strip v) = 10 \<and> list_all isdigit_cp (strip v) then Inr (strip v)
     else Inl (ValueError Phone_ten_digits))"
  by (auto simp: Phone_def isdigit_def Let_def)

text \<open>
  Claim C6, amended. Constructing a \<^verbatim>\<open>Phone\<close> succeeds exactly when the string,
  trimmed of white space, has 10 characters each of which \<^verbatim>\<open>str.isdigit\<close> takes for a
  digit: a character with the Unicode property Numeric_Type Digit or Decimal. The ASCII
  digits 0 to 9 are such characters, and so are others (superscript digits and the
  decimal digits of other scripts); the plus sign, the hyphen and the space are not.
  On success the value stored is the trimmed string; every other input fails with the
  \<^verbatim>\<open>ValueError\<close> of \<^verbatim>\<open>Phone\<close>.
\<close>

theorem Phone_accepts_ten_digits:
  "(Phone v = Inr w \<longleftrightarrow>
      w = strip v \<and> length (strip v) = 10 \<and> (\<forall>c \<in> set (strip v). isdigit_cp c)) \<and>
   ((\<forall>w. Phone v \<noteq> Inr w) \<longrightarrow> Phone v = Inl (ValueError Phone_ten_digits)) \<and>
   (is_ascii_digit c \<longrightarrow> isdigit_cp c) \<and>
   \<not> isdigit_cp 43 \<and> \<not> isdigit_cp 45 \<and> \<not> isdigit_cp 32"
proof -
  have 1: "Phone v = Inr w \<longleftrightarrow>
      w = strip v \<and> length (strip v) = 10 \<and> (\<forall>c \<in> set (strip v). isdigit_cp c)"
    by (auto simp: Phone_eq list_all_iff)
  have 2: "(\<forall>w. Phone v \<noteq> Inr w) \<longrightarrow> Phone v = Inl (ValueError Phone_ten_digits)"
    by (simp add: Phone_eq)
  have 3: "is_ascii_digit c \<longrightarrow> isdigit_cp c"
    by (simp add: ascii_digit_isdigit)
  have 4: "\<not> isdigit_cp 43 \<and> \<not> isdigit_cp 45 \<and> \<not> isdigit_cp 32"
    by code_simp
  from 1 2 3 4 show ?thesis by blast
qed

theorem Phone_accepts_ten_digits_witness:
  "Phone (u '' 0123456789 '') = Inr (u ''0123456789'') \<and>
   strip (u '' 0123456789 '') = u ''0123456789'' \<and>
   length (strip (u '' 0123456789 '')) = 10 \<and>
   list_all isdigit_cp (strip (u '' 0123456789 '')) \<and>
   is_ascii_digit 48 \<and> isdigit_cp 48"
proof -
  have p: "Phone (u '' 0123456789 '') = Inr (u ''0123456789'')" by code_simp
  have a: "is_ascii_digit 48" by (simp add: is_ascii_digit_def)
  from Phone_accepts_ten_digits [of "u '' 0123456789 ''" "u ''0123456789''" 48] p a
  show ?thesis by (simp add: list_all_iff)
qed

text \<open>
  Claim C6 as stated limits the accepted strings to ten decimal digits. Ten times the
  superscript two (code point 178), which is a digit for \<^verbatim>\<open>str.isdigit\<close> but neither
  a decimal digit nor an ASCII one, is accepted.
\<close>

theorem Phone_superscript_digits:
  "Phone [178, 178, 178, 178, 178, 178, 178, 178, 178, 178] =
     Inr [178, 178, 178, 178, 178, 178, 178, 178, 178, 178] \<and>
   strip [178, 178, 178, 178, 178, 178, 178, 178, 178, 178] =
     [178, 178, 178, 178, 178, 178, 178, 178, 178, 178] \<and>
   \<not> isdecimal_cp 178 \<and> \<not> is_ascii_digit 178"
  by code_simp

text \<open>
  Claim C10. There is a string of 10 characters, none of them an ASCII digit, from which
  a \<^verbatim>\<open>Phone\<close> is constructed: the ten Arabic-Indic digits (code points 1632 to 1641).
  The check accepts whatever Unicode classes as a digit, such as the superscript two
  (178) and the fullwidth digit zero (65296).
\<close>

theorem Phone_accepts_non_ascii_digits:
  "length [1632, 1633, 1634, 1635, 1636, 1637, 1638, 1639, 1640, 1641 :: int] = 10 \<and>
   list_all (\<lambda>c. \<not> is_ascii_digit c) [1632, 1633, 1634, 1635, 1636, 1637, 1638, 1639, 1640, 1641] \<and>
   Phone [1632, 1633, 1634, 1635, 1636, 1637, 1638, 1639, 1640, 1641] =
     Inr [1632, 1633, 1634, 1635, 1636, 1637, 1638, 1639, 1640, 1641] \<and>
   isdigit_cp 178 \<and> \<not> is_ascii_digit 178 \<and> isdigit_cp 65296 \<and> \<not> is_ascii_digit 65296"
  by code_simp

theorem Phone_accepts_non_ascii_digits_witness:
  "Phone [1632, 1633, 1634, 1635, 1636, 1637, 1638, 1639, 1640, 1641] =
     Inr [1632, 1633, 1634, 1635, 1636, 1637, 1638, 1639, 1640, 1641] \<and>
   isdigit_cp 178 \<and> isdigit_cp 65296"
  using Phone_accepts_non_ascii_digits by blast

lemma hd_strip:
  assumes "strip s \<noteq> []"
  shows "\<not> isspace_cp (hd (strip s))"
proof -
  let ?t = "dropWhile isspace_cp s"
  have "rev (takeWhile isspace_cp (rev ?t) @ dropWhile isspace_cp (rev ?t)) = ?t"
    by (simp only: takeWhile_dropWhile_id rev_rev_ident)
  then have t: "?t = strip s @ rev (takeWhile isspace_cp (rev ?t))"
    by (simp only: rev_append strip_def)
  with assms have "?t \<noteq> []" by (metis append_is_Nil_conv)
  then have "\<not> isspace_cp (hd ?t)" by (rule hd_dropWhile)
  moreover from t assms have "hd ?t = hd (strip s)"
    by (metis hd_append2)
  ultimately show ?thesis by simp
qed

lemma strip_strftime:
  assumes "valid_date dt" "1000 \<le> year dt"
  shows "strip (strftime dt) = strftime dt"
proof -
  from is_DD_MM_YYYY_strftime [OF assms] obtain d1 d2 p1 m1 m2 p2 y1 y2 y3 y4
    where s: "strftime dt = [d1, d2, p1, m1, m2, p2, y1, y2, y3, y4]"
      and d: "is_ascii_digit d1" "is_ascii_digit y4"
    by (auto elim!: is_DD_MM_YYYY.elims)
  from d have "\<not> isspace_cp d1" "\<not> isspace_cp y4"
    by (simp_all add: is_ascii_digit_def ascii_digit_not_space)
  then show ?thesis
    unfolding s by (intro strip_no_space) simp_all
qed

lemma Birthday_Inr:
  "Birthday raw = Inr v \<longleftrightarrow> (\<exists>dt. strptime (strip raw) = Inr dt \<and> v = strftime dt)"
  by (auto simp: Birthday_def Let_def split: sum.splits error.splits)

lemma Birthday_Inl:
  assumes "Birthday raw = Inl e"
  shows "e = ValueError Date_format"
  using assms
  by (auto simp: Birthday_def Let_def split: sum.splits error.splits dest: strptime_Inl)

lemma day_token_nonempty: "day_token g \<Longrightarrow> g \<noteq> []"
  by auto

text \<open>
  Claim C7, amended. Constructing a \<^verbatim>\<open>Birthday\<close> succeeds exactly when the string,
  trimmed of white space, is a day, a full stop, a month, a full stop and a year that
  form a date of the calendar (years 1 to 9999), where the day is 1 to 31 written in
  one or two characters, the month is 1 to 12 written in one or two characters, and
  the year is four decimal digits; the digits may be the decimal digits of any script
  where the expression has \<^verbatim>\<open>\d\<close>. So 1.2.2020 is accepted as well as 01.02.2020, and
  31.02.2020 is refused. On success the value stored is the date formatted again, and
  for a year from 1000 on this is the format DD.MM.YYYY, which is the trimmed input only
  if that was in this format already, and reading \<^verbatim>\<open>date_value\<close> gives the date back.
  Every failure is the \<^verbatim>\<open>ValueError\<close> of \<^verbatim>\<open>Birthday\<close>.
\<close>

theorem Birthday_accepts_dates:
  "(Birthday raw = Inr v \<longleftrightarrow>
      (\<exists>dg mg yg. strip raw = dg @ 46 # mg @ 46 # yg \<and>
         day_token dg \<and> hd dg \<noteq> 32 \<and> month_token mg \<and> year_token yg \<and>
         check_date_fields (py_int yg) (py_int mg) (py_int dg) \<and>
         v = strftime \<lparr>year = py_int yg, month = py_int mg, day = py_int dg\<rparr>)) \<and>
   (Birthday raw = Inr v \<longrightarrow>
      (\<exists>dt. valid_date dt \<and> strptime (strip raw) = Inr dt \<and> v = strftime dt \<and>
         (1000 \<le> year dt \<longrightarrow> is_DD_MM_YYYY v \<and> date_value v = Inr dt))) \<and>
   (Birthday raw = Inl e \<longrightarrow> e = ValueError Date_format) \<and>
   (valid_date dt \<and> 1000 \<le> year dt \<longrightarrow> Birthday (strftime dt) = Inr (strftime dt)) \<and>
   Birthday (u ''31.02.2020'') = Inl (ValueError Date_format)"
proof -
  have 1: "Birthday raw = Inr v \<longleftrightarrow>
      (\<exists>dg mg yg. strip raw = dg @ 46 # mg @ 46 # yg \<and>
         day_token dg \<and> hd dg \<noteq> 32 \<and> month_token mg \<and> year_token yg \<and>
         check_date_fields (py_int yg) (py_int mg) (py_int dg) \<and>
         v = strftime \<lparr>year = py_int yg, month = py_int mg, day = py_int dg\<rparr>)"
    (is "?l \<longleftrightarrow> ?r")
  proof
    assume ?l
    then obtain dt where p: "strptime (strip raw) = Inr dt" and v: "v = strftime dt"
      by (auto simp: Birthday_Inr)
    from p obtain dg mg yg where s: "strip raw = dg @ 46 # mg @ 46 # yg"
      and tok: "day_token dg" "month_token mg" "year_token yg"
      and d: "date_new (py_int yg) (py_int mg) (py_int dg) = Inr dt"
      by (auto simp: strptime_iff)
    from tok(1) have ne: "dg \<noteq> []" by (rule day_token_nonempty)
    with s have "strip raw \<noteq> []" "hd (strip raw) = hd dg" by simp_all
    with hd_strip [of raw] have "\<not> isspace_cp (hd dg)" by simp
    moreover have "isspace_cp 32" by code_simp
    ultimately have "hd dg \<noteq> 32" by auto
    with s tok d v show ?r by (auto simp: date_new_Inr)
  next
    assume ?r
    then obtain dg mg yg where s: "strip raw = dg @ 46 # mg @ 46 # yg"
      and tok: "day_token dg" "month_token mg" "year_token yg"
      and c: "check_date_fields (py_int yg) (py_int mg) (py_int dg)"
      and v: "v = strftime \<lparr>year = py_int yg, month = py_int mg, day = py_int dg\<rparr>"
      by blast
    from c have "date_new (py_int yg) (py_int mg) (py_int dg) =
        Inr \<lparr>year = py_int yg, month = py_int mg, day = py_int dg\<rparr>"
      by (simp add: date_new_def)
    with s tok have "strptime (strip raw) = Inr \<lparr>year = py_int yg, month = py_int mg, day = py_int dg\<rparr>"
      unfolding strptime_iff by blast
    with v show ?l by (auto simp: Birthday_Inr)
  qed
  have 2: "Birthday raw = Inr v \<longrightarrow>
      (\<exists>dt. valid_date dt \<and> strptime (strip raw) = Inr dt \<and> v = strftime dt \<and>
         (1000 \<le> year dt \<longrightarrow> is_DD_MM_YYYY v \<and> date_value v = Inr dt))"
  proof
    assume "Birthday raw = Inr v"
    then obtain dt where p: "strptime (strip raw) = Inr dt" and v: "v = strftime dt"
      by (auto simp: Birthday_Inr)
    from p have vd: "valid_date dt" by (rule strptime_valid)
    have "is_DD_MM_YYYY v \<and> date_value v = Inr dt" if y: "1000 \<le> year dt"
    proof -
      from vd y have "is_DD_MM_YYYY v" unfolding v by (rule is_DD_MM_YYYY_strftime)
      moreover from vd y have "date_value v = Inr dt"
        unfolding v date_value_def by (rule strptime_strftime)
      ultimately show ?thesis by simp
    qed
    with vd p v show "\<exists>dt. valid_date dt \<and> strptime (strip raw) = Inr dt \<and> v = strftime dt \<and>
         (1000 \<le> year dt \<longrightarrow> is_DD_MM_YYYY v \<and> date_value v = Inr dt)"
      by blast
  qed
  have 3: "Birthday raw = Inl e \<longrightarrow> e = ValueError Date_format"
    by (auto dest: Birthday_Inl)
  have 4: "valid_date dt \<and> 1000 \<le> year dt \<longrightarrow> Birthday (strftime dt) = Inr (strftime dt)"
    by (auto simp: Birthday_Inr strip_strftime strptime_strftime)
  have 5: "Birthday (u ''31.02.2020'') = Inl (ValueError Date_format)"
    by code_simp
  from 1 2 3 4 5 show ?thesis by blast
qed

theorem Birthday_accepts_dates_witness:
  "Birthday (u '' 29.02.2020 '') = Inr (u ''29.02.2020'') \<and>
   (\<exists>dt. valid_date dt \<and> strptime (strip (u '' 29.02.2020 '')) = Inr dt \<and>
      u ''29.02.2020'' = strftime dt) \<and>
   strptime (strip (u '' 29.02.2020 '')) = Inr \<lparr>year = 2020, month = 2, day = 29\<rparr> \<and>
   is_DD_MM_YYYY (u ''29.02.2020'') \<and>
   date_value (u ''29.02.2020'') = Inr \<lparr>year = 2020, month = 2, day = 29\<rparr> \<and>
   valid_date \<lparr>year = 2020, month = 2, day = 29\<rparr> \<and>
   Birthday (strftime \<lparr>year = 2020, month = 2, day = 29\<rparr>) = Inr (strftime \<lparr>year = 2020, month = 2, day = 29\<rparr>) \<and>
   Birthday (u ''29.02.2021'') = Inl (ValueError Date_format)"
proof -
  have b: "Birthday (u '' 29.02.2020 '') = Inr (u ''29.02.2020'')" by code_simp
  have v: "valid_date \<lparr>year = 2020, month = 2, day = 29\<rparr>" by code_simp
  have y: "1000 \<le> year \<lparr>year = 2020, month = 2, day = 29\<rparr>" by simp
  have e: "Birthday (u ''29.02.2021'') = Inl (ValueError Date_format)" by code_simp
  have p: "strptime (strip (u '' 29.02.2020 '')) = Inr \<lparr>year = 2020, month = 2, day = 29\<rparr>"
    by code_simp
  have f: "is_DD_MM_YYYY (u ''29.02.2020'')" by code_simp
  have d: "date_value (u ''29.02.2020'') = Inr \<lparr>year = 2020, month = 2, day = 29\<rparr>" by code_simp
  note w = Birthday_accepts_dates [of "u '' 29.02.2020 ''" "u ''29.02.2020''" _
      "\<lparr>year = 2020, month = 2, day = 29\<rparr>"]
  from w b have 1: "\<exists>dt. valid_date dt \<and> strptime (strip (u '' 29.02.2020 '')) = Inr dt \<and>
      u ''29.02.2020'' = strftime dt"
    by blast
  from w v y have 2: "Birthday (strftime \<lparr>year = 2020, month = 2, day = 29\<rparr>) =
      Inr (strftime \<lparr>year = 2020, month = 2, day = 29\<rparr>)"
    by blast
  from b 1 p f d v 2 e show ?thesis by blast
qed

text \<open>
  Claim C7 as stated requires a day and a month of two digits. The string 1.2.2020, of
  eight characters, is accepted, and the value stored is 01.02.2020. The claim also has
  every stored value in the format DD.MM.YYYY with its date exposed: for 01.01.0999 the
  value stored is 01.01.999, of nine characters, and reading \<^verbatim>\<open>date_value\<close> raises.
\<close>

theorem Birthday_one_digit_day_and_month:
  "Birthday (u ''1.2.2020'') = Inr (u ''01.02.2020'') \<and>
   strip (u ''1.2.2020'') = u ''1.2.2020'' \<and>
   \<not> is_DD_MM_YYYY (u ''1.2.2020'') \<and> length (u ''1.2.2020'') = 8 \<and>
   Birthday (u ''01.01.0999'') = Inr (u ''01.01.999'') \<and>
   \<not> is_DD_MM_YYYY (u ''01.01.999'') \<and>
   date_value (u ''01.01.999'') = Inl (ValueError Time_data_mismatch)"
  by code_simp

section \<open>The claim about editing a phone\<close>

lemma find_phone_from_None: "find_phone_from ps x k = None \<longleftrightarrow> x \<notin> set ps"
  by (induction ps arbitrary: k) auto

lemma find_phone_from_Some:
  assumes "find_phone_from ps x k = Some i"
  shows "k \<le> i \<and> i - k < length ps \<and> ps ! (i - k) = x \<and> (\<forall>j < i - k. ps ! j \<noteq> x)"
  using assms
proof (induction ps arbitrary: k)
  case Nil
  then show ?case by simp
next
  case (Cons p ps)
  show ?case
  proof (cases "p = x")
    case True
    with Cons.prems show ?thesis by simp
  next
    case False
    with Cons.prems have "find_phone_from ps x (Suc k) = Some i" by simp
    from Cons.IH [OF this]
    have i: "Suc k \<le> i" "i - Suc k < length ps" "ps ! (i - Suc k) = x"
      "\<forall>j < i - Suc k. ps ! j \<noteq> x" by simp_all
    from i(1) have e: "i - k = Suc (i - Suc k)" by simp
    have "\<forall>j < i - k. (p # ps) ! j \<noteq> x"
    proof (intro allI impI)
      fix j assume "j < i - k"
      then show "(p # ps) ! j \<noteq> x"
        using False i(4) e by (cases j) simp_all
    qed
    with i e show ?thesis by simp
  qed
qed

lemma find_phone_None: "find_phone r x = None \<longleftrightarrow> x \<notin> set (phones r)"
  by (simp add: find_phone_def find_phone_from_None)

lemma find_phone_Some:
  assumes "find_phone r x = Some i"
  shows "i < length (phones r) \<and> phones r ! i = x \<and> (\<forall>j < i. phones r ! j \<noteq> x)"
  using find_phone_from_Some [of "phones r" x 0 i] assms by (simp add: find_phone_def)

lemma Phone_Inr_strip: "Phone v = Inr w \<Longrightarrow> w = strip v"
  by (auto simp: Phone_def Let_def split: if_splits)

text \<open>
  Claim C8, amended. \<^verbatim>\<open>edit_phone(old, new)\<close> fails with the \<^verbatim>\<open>ValueError\<close>
  "Old phone ... not found" and leaves the record as it was when no stored phone
  equals \<open>old\<close>. When one does, \<open>new\<close> is validated as a \<^verbatim>\<open>Phone\<close>: if that fails,
  the edit fails with its error and the record is as it was; otherwise the first phone
  equal to \<open>old\<close> gets the trimmed \<open>new\<close> as its value, at the same position, and
  nothing else changes. Afterwards \<^verbatim>\<open>find_phone\<close> finds the trimmed \<open>new\<close> (it finds
  \<open>new\<close> itself only when \<open>new\<close> has no white space around it), and it does not find
  \<open>old\<close> provided \<open>old\<close> was stored once only and differs from the trimmed \<open>new\<close>.
\<close>

theorem edit_phone_in_place:
  "(find_phone r old = None \<longrightarrow>
      edit_phone r old new = (Inl (ValueError (Old_phone_not_found old)), r)) \<and>
   (find_phone r old = Some i \<longrightarrow>
      i < length (phones r) \<and> phones r ! i = old \<and> (\<forall>j < i. phones r ! j \<noteq> old) \<and>
      (\<forall>e. Phone new = Inl e \<longrightarrow> edit_phone r old new = (Inl e, r)) \<and>
      (\<forall>v. Phone new = Inr v \<longrightarrow>
         v = strip new \<and>
         edit_phone r old new = (Inr (), r\<lparr>phones := (phones r)[i := v]\<rparr>) \<and>
         length (phones (snd (edit_phone r old new))) = length (phones r) \<and>
         phones (snd (edit_phone r old new)) ! i = v \<and>
         (\<forall>j. j \<noteq> i \<longrightarrow> phones (snd (edit_phone r old new)) ! j = phones r ! j) \<and>
         name (snd (edit_phone r old new)) = name r \<and>
         birthday (snd (edit_phone r old new)) = birthday r \<and>
         find_phone (snd (edit_phone r old new)) v \<noteq> None \<and>
         (v \<noteq> old \<and> (\<forall>j < length (phones r). phones r ! j = old \<longrightarrow> j = i) \<longrightarrow>
            find_phone (snd (edit_phone r old new)) old = None)))"
proof -
  have a: "find_phone r old = None \<longrightarrow>
      edit_phone r old new = (Inl (ValueError (Old_phone_not_found old)), r)"
    by (simp add: edit_phone_def)
  have b: "i < length (phones r) \<and> phones r ! i = old \<and> (\<forall>j < i. phones r ! j \<noteq> old) \<and>
      (\<forall>e. Phone new = Inl e \<longrightarrow> edit_phone r old new = (Inl e, r)) \<and>
      (\<forall>v. Phone new = Inr v \<longrightarrow>
         v = strip new \<and>
         edit_phone r old new = (Inr (), r\<lparr>phones := (phones r)[i := v]\<rparr>) \<and>
         length (phones (snd (edit_phone r old new))) = length (phones r) \<and>
         phones (snd (edit_phone r old new)) ! i = v \<and>
         (\<forall>j. j \<noteq> i \<longrightarrow> phones (snd (edit_phone r old new)) ! j = phones r ! j) \<and>
         name (snd (edit_phone r old new)) = name r \<and>
         birthday (snd (edit_phone r old new)) = birthday r \<and>
         find_phone (snd (edit_phone r old new)) v \<noteq> None \<and>
         (v \<noteq> old \<and> (\<forall>j < length (phones r). phones r ! j = old \<longrightarrow> j = i) \<longrightarrow>
            find_phone (snd (edit_phone r old new)) old = None))"
    if f: "find_phone r old = Some i"
  proof -
    from find_phone_Some [OF f] have i: "i < length (phones r)" "phones r ! i = old"
      "\<forall>j < i. phones r ! j \<noteq> old" by simp_all
    have e: "\<forall>e. Phone new = Inl e \<longrightarrow> edit_phone r old new = (Inl e, r)"
      using f by (simp add: edit_phone_def)
    have v: "v = strip new \<and>
         edit_phone r old new = (Inr (), r\<lparr>phones := (phones r)[i := v]\<rparr>) \<and>
         length (phones (snd (edit_phone r old new))) = length (phones r) \<and>
         phones (snd (edit_phone r old new)) ! i = v \<and>
         (\<forall>j. j \<noteq> i \<longrightarrow> phones (snd (edit_phone r old new)) ! j = phones r ! j) \<and>
         name (snd (edit_phone r old new)) = name r \<and>
         birthday (snd (edit_phone r old new)) = birthday r \<and>
         find_phone (snd (edit_phone r old new)) v \<noteq> None \<and>
         (v \<noteq> old \<and> (\<forall>j < length (phones r). phones r ! j = old \<longrightarrow> j = i) \<longrightarrow>
            find_phone (snd (edit_phone r old new)) old = None)"
      if p: "Phone new = Inr v" for v
    proof -
      let ?r' = "r\<lparr>phones := (phones r)[i := v]\<rparr>"
      have r': "edit_phone r old new = (Inr (), ?r')"
        using f p by (simp add: edit_phone_def)
      have found: "find_phone ?r' v \<noteq> None"
        using i(1) by (simp add: find_phone_None set_update_memI)
      have gone: "find_phone ?r' old = None"
        if "v \<noteq> old" "\<forall>j < length (phones r). phones r ! j = old \<longrightarrow> j = i"
      proof -
        have "old \<notin> set ((phones r)[i := v])"
        proof
          assume "old \<in> set ((phones r)[i := v])"
          then obtain j where j: "j < length (phones r)" "(phones r)[i := v] ! j = old"
            by (auto simp: in_set_conv_nth)
          show False
          proof (cases "j = i")
            case True
            with j i(1) that(1) show False by simp
          next
            case False
            with j have "phones r ! j = old" by simp
            with that(2) j(1) False show False by blast
          qed
        qed
        then show ?thesis by (simp add: find_phone_None)
      qed
      from Phone_Inr_strip [OF p] r' found gone i(1) show ?thesis by simp
    qed
    from i e v show ?thesis by blast
  qed
  from a b show ?thesis by blast
qed

theorem edit_phone_in_place_witness:
  "find_phone \<lparr>name = u ''Ann'', phones = [u ''0000000000'', u ''1111111111''], birthday = None\<rparr>
     (u ''1111111111'') = Some 1 \<and>
   Phone (u ''2222222222'') = Inr (u ''2222222222'') \<and>
   edit_phone \<lparr>name = u ''Ann'', phones = [u ''0000000000'', u ''1111111111''], birthday = None\<rparr>
     (u ''1111111111'') (u ''2222222222'') =
     (Inr (), \<lparr>name = u ''Ann'', phones = [u ''0000000000'', u ''2222222222''], birthday = None\<rparr>) \<and>
   find_phone (snd (edit_phone
     \<lparr>name = u ''Ann'', phones = [u ''0000000000'', u ''1111111111''], birthday = None\<rparr>
     (u ''1111111111'') (u ''2222222222''))) (u ''2222222222'') \<noteq> None \<and>
   find_phone \<lparr>name = u ''Ann'', phones = [u ''0000000000'', u ''1111111111''], birthday = None\<rparr>
     (u ''9999999999'') = None \<and>
   edit_phone \<lparr>name = u ''Ann'', phones = [u ''0000000000'', u ''1111111111''], birthday = None\<rparr>
     (u ''9999999999'') (u ''2222222222'') =
     (Inl (ValueError (Old_phone_not_found (u ''9999999999''))),
      \<lparr>name = u ''Ann'', phones = [u ''0000000000'', u ''1111111111''], birthday = None\<rparr>)"
proof -
  let ?r = "\<lparr>name = u ''Ann'', phones = [u ''0000000000'', u ''1111111111''], birthday = None\<rparr>"
  have f: "find_phone ?r (u ''1111111111'') = Some 1" by code_simp
  have p: "Phone (u ''2222222222'') = Inr (u ''2222222222'')" by code_simp
  have e: "edit_phone ?r (u ''1111111111'') (u ''2222222222'') =
     (Inr (), \<lparr>name = u ''Ann'', phones = [u ''0000000000'', u ''2222222222''], birthday = None\<rparr>)"
    by code_simp
  have n: "find_phone ?r (u ''9999999999'') = None" by code_simp
  from edit_phone_in_place [of ?r "u ''1111111111''" "u ''2222222222''" 1] f p
  have 1: "find_phone (snd (edit_phone ?r (u ''1111111111'') (u ''2222222222''))) (u ''2222222222'') \<noteq> None"
    by blast
  from edit_phone_in_place [of ?r "u ''9999999999''" "u ''2222222222''" 0] n
  have 2: "edit_phone ?r (u ''9999999999'') (u ''2222222222'') =
     (Inl (ValueError (Old_phone_not_found (u ''9999999999''))), ?r)"
    by blast
  from f p e n 1 2 show ?thesis by blast
qed

text \<open>
  Claim C8 as stated says that after a successful edit \<^verbatim>\<open>find_phone(new)\<close> succeeds
  and \<^verbatim>\<open>find_phone(old)\<close> finds nothing. With a space before the new number the
  stored value is the trimmed number, and the untrimmed one is not found; and editing a
  number to itself leaves it to be found.
\<close>

theorem edit_phone_find_raw_fails:
  "edit_phone \<lparr>name = u ''Ann'', phones = [u ''1111111111''], birthday = None\<rparr>
     (u ''1111111111'') (u '' 2222222222'') =
     (Inr (), \<lparr>name = u ''Ann'', phones = [u ''2222222222''], birthday = None\<rparr>) \<and>
   find_phone \<lparr>name = u ''Ann'', phones = [u ''2222222222''], birthday = None\<rparr>
     (u '' 2222222222'') = None \<and>
   edit_phone \<lparr>name = u ''Ann'', phones = [u ''1111111111''], birthday = None\<rparr>
     (u ''1111111111'') (u ''1111111111'') =
     (Inr (), \<lparr>name = u ''Ann'', phones = [u ''1111111111''], birthday = None\<rparr>) \<and>
   find_phone \<lparr>name = u ''Ann'', phones = [u ''1111111111''], birthday = None\<rparr>
     (u ''1111111111'') = Some 0"
  by code_simp

section \<open>The claim about saving and loading\<close>

lemma dec_str_enc: "dec_str (enc_str s @ rest) = Some (s, rest)"
  by (simp add: dec_str_def enc_str_def)

lemma dec_many_enc:
  assumes "\<And>x rest. d (e x @ rest) = Some (x, rest)"
  shows "dec_many (length xs) d (concat (map e xs) @ rest) = Some (xs, rest)"
  by (induction xs) (simp_all add: assms)

lemma dec_list_enc:
  assumes "\<And>x rest. d (e x @ rest) = Some (x, rest)"
  shows "dec_list d (int (length xs) # concat (map e xs) @ rest) = Some (xs, rest)"
  using dec_many_enc [of d e xs rest, OF assms] by (simp add: dec_list_def)

lemma dec_opt_enc: "dec_opt (enc_opt b @ rest) = Some (b, rest)"
  by (cases b) (simp_all add: dec_opt_def enc_opt_def dec_str_enc)

lemma dec_record_enc: "dec_record (enc_record r @ rest) = Some (r, rest)"
proof -
  have "dec_list dec_str (enc_strs (phones r) @ enc_opt (birthday r) @ rest) =
      Some (phones r, enc_opt (birthday r) @ rest)"
    unfolding enc_strs_def
    using dec_list_enc [of dec_str enc_str "phones r" "enc_opt (birthday r) @ rest"]
    by (simp add: dec_str_enc)
  then show ?thesis
    by (simp add: dec_record_def enc_record_def dec_str_enc dec_opt_enc)
qed

lemma dec_item_enc: "dec_item (enc_item kv @ rest) = Some (kv, rest)"
  by (simp add: dec_item_def enc_item_def dec_str_enc dec_record_enc)

lemma pickle_round_trip: "pickle_load (pickle_dump book) = Inr book"
proof -
  have "dec_list dec_item (int (length book) # concat (map enc_item book) @ []) = Some (book, [])"
    by (rule dec_list_enc) (rule dec_item_enc)
  then show ?thesis
    by (simp add: pickle_load_def pickle_dump_def)
qed

text \<open>
  Claim C9. Saving a book to a path and loading from that path gives the same book: the
  same keys and records in the same order, each record with the same name, the same
  phones in order and the same birthday string or none, and so the same rendered
  output. Saving leaves every other path as it was. Loading from a path that has no
  file gives the empty book, which renders as \<^verbatim>\<open>[]\<close>, and no error. The codec is the
  one modelled above for \<^verbatim>\<open>pickle\<close>, whose round trip is the lemma
  \<open>pickle_round_trip\<close>.
\<close>

theorem save_then_load:
  "load_data path (save_data book path fs) = Inr book \<and>
   (\<exists>book'. load_data path (save_data book path fs) = Inr book' \<and>
      AddressBook_str book' = AddressBook_str book \<and>
      map (\<lambda>kv. (fst kv, name (snd kv), phones (snd kv), birthday (snd kv))) book' =
      map (\<lambda>kv. (fst kv, name (snd kv), phones (snd kv), birthday (snd kv))) book) \<and>
   (\<forall>other. other \<noteq> path \<longrightarrow> save_data book path fs other = fs other) \<and>
   (fs path = None \<longrightarrow> load_data path fs = Inr [] \<and> AddressBook_str [] = u ''[]'')"
proof -
  have 1: "load_data path (save_data book path fs) = Inr book"
    by (simp add: load_data_def save_data_def pickle_round_trip)
  have 2: "\<forall>other. other \<noteq> path \<longrightarrow> save_data book path fs other = fs other"
    by (simp add: save_data_def)
  have 3: "fs path = None \<longrightarrow> load_data path fs = Inr [] \<and> AddressBook_str [] = u ''[]''"
    by (simp add: load_data_def AddressBook_str_def)
  from 1 2 3 show ?thesis by simp
qed

theorem save_then_load_witness:
  "load_data (u ''addressbook.pkl'')
     (save_data
        [(u ''Ann'', \<lparr>name = u ''Ann'', phones = [u ''0123456789''], birthday = Some (u ''29.02.2000'')\<rparr>),
         (u ''Bob'', \<lparr>name = u ''Bob'', phones = [], birthday = None\<rparr>)]
        (u ''addressbook.pkl'') Map.empty) =
     Inr [(u ''Ann'', \<lparr>name = u ''Ann'', phones = [u ''0123456789''], birthday = Some (u ''29.02.2000'')\<rparr>),
          (u ''Bob'', \<lparr>name = u ''Bob'', phones = [], birthday = None\<rparr>)] \<and>
   (Map.empty :: files) (u ''addressbook.pkl'') = None \<and>
   load_data (u ''addressbook.pkl'') Map.empty = Inr [] \<and>
   AddressBook_str [] = u ''[]'' \<and>
   save_data [] (u ''addressbook.pkl'') Map.empty (u ''other.pkl'') = None"
proof -
  have n: "(Map.empty :: files) (u ''addressbook.pkl'') = None" by simp
  have o: "u ''other.pkl'' \<noteq> u ''addressbook.pkl''" by (simp add: u_def)
  note w = save_then_load [of "u ''addressbook.pkl''" _ Map.empty]
  from w [of "[(u ''Ann'', \<lparr>name = u ''Ann'', phones = [u ''0123456789''], birthday = Some (u ''29.02.2000'')\<rparr>),
         (u ''Bob'', \<lparr>name = u ''Bob'', phones = [], birthday = None\<rparr>)]"]
  have 1: "load_data (u ''addressbook.pkl'')
     (save_data
        [(u ''Ann'', \<lparr>name = u ''Ann'', phones = [u ''0123456789''], birthday = Some (u ''29.02.2000'')\<rparr>),
         (u ''Bob'', \<lparr>name = u ''Bob'', phones = [], birthday = None\<rparr>)]
        (u ''addressbook.pkl'') Map.empty) =
     Inr [(u ''Ann'', \<lparr>name = u ''Ann'', phones = [u ''0123456789''], birthday = Some (u ''29.02.2000'')\<rparr>),
          (u ''Bob'', \<lparr>name = u ''Bob'', phones = [], birthday = None\<rparr>)]"
    by (rule conjunct1)
  from w [of "[]"] n have 2: "load_data (u ''addressbook.pkl'') Map.empty = Inr []"
    "AddressBook_str [] = u ''[]''"
    by blast+
  from w [of "[]"] o have 3: "save_data [] (u ''addressbook.pkl'') Map.empty (u ''other.pkl'') = None"
    by auto
  from 1 n 2 3 show ?thesis by blast
qed

end
